theory Spec2Isabelle
  imports
    Main
    "HOL-Library.Sublist"
    "HOL-Library.Char_ord"
    "HOL-Library.List_Lexorder"
    "HOL-Library.Product_Lexorder"
    "HOL-Library.Multiset"
begin

section \<open>Python strings\<close>

text \<open>
  Strings are \<^typ>\<open>string\<close>: lists of 8-bit characters. The corpus paths, EDF header
  fields and channel labels handled by \<^verbatim>\<open>00_bidsify_tuab.ipynb\<close> are ASCII, where a
  character is a byte and Python's code-point order is the byte order.
\<close>

text \<open>\<^verbatim>\<open>s.startswith(p)\<close>.\<close>

fun starts_with :: "string \<Rightarrow> string \<Rightarrow> bool" where
  "starts_with s [] = True"
| "starts_with [] (p # ps) = False"
| "starts_with (c # cs) (p # ps) = (c = p \<and> starts_with cs ps)"

text \<open>\<^verbatim>\<open>sub in s\<close> on strings: \<open>sub\<close> occurs as a contiguous substring.\<close>

fun str_in :: "string \<Rightarrow> string \<Rightarrow> bool" where
  "str_in sub [] = (sub = [])"
| "str_in sub (c # cs) = (starts_with (c # cs) sub \<or> str_in sub cs)"

text \<open>
  \<^verbatim>\<open>s.replace(old, new)\<close>: every non-overlapping occurrence of \<open>old\<close>, found from
  the left, is replaced. With an empty \<open>old\<close> Python inserts \<open>new\<close> before every
  character and at the end.
\<close>

function str_replace :: "string \<Rightarrow> string \<Rightarrow> string \<Rightarrow> string" where
  "str_replace old new [] = (if old = [] then new else [])"
| "str_replace old new (c # cs) =
     (if old = [] then new @ c # str_replace old new cs
      else if starts_with (c # cs) old
        then new @ str_replace old new (drop (length old - 1) cs)
      else c # str_replace old new cs)"
  by pat_completeness auto
termination
  by (relation "measure (\<lambda>(old, new, s). length s)") auto

text \<open>\<^verbatim>\<open>s.lower()\<close> on ASCII: only \<open>A\<close>..\<open>Z\<close> change.\<close>

definition char_lower :: "char \<Rightarrow> char" where
  "char_lower c =
     (case map_of (zip ''ABCDEFGHIJKLMNOPQRSTUVWXYZ'' ''abcdefghijklmnopqrstuvwxyz'') c of
        Some l \<Rightarrow> l
      | None \<Rightarrow> c)"

definition str_lower :: "string \<Rightarrow> string" where
  "str_lower s = map char_lower s"

text \<open>\<^verbatim>\<open>s.split(sep)\<close> for a one-character separator: one part more than separators.\<close>

fun str_split :: "char \<Rightarrow> string \<Rightarrow> string list" where
  "str_split sep [] = [[]]"
| "str_split sep (c # cs) =
     (if c = sep then [] # str_split sep cs
      else (case str_split sep cs of
              [] \<Rightarrow> [[c]]
            | p # ps \<Rightarrow> (c # p) # ps))"

text \<open>
  Character classes of the \<^verbatim>\<open>re\<close> module on ASCII text: \<^verbatim>\<open>\d\<close>, \<^verbatim>\<open>\s\<close>
  (the characters for which \<^verbatim>\<open>str.isspace\<close> holds: codes 9 to 13, 28 to 31 and 32)
  and \<^verbatim>\<open>\w\<close>.
\<close>

definition is_digit :: "char \<Rightarrow> bool" where
  "is_digit c = (c \<in> set ''0123456789'')"

definition is_space :: "char \<Rightarrow> bool" where
  "is_space c =
     (c \<in> set [CHR 0x09, CHR 0x0A, CHR 0x0B, CHR 0x0C, CHR 0x0D,
                CHR 0x1C, CHR 0x1D, CHR 0x1E, CHR 0x1F, CHR 0x20])"

definition is_word :: "char \<Rightarrow> bool" where
  "is_word c =
     (c \<in> set ''abcdefghijklmnopqrstuvwxyzABCDEFGHIJKLMNOPQRSTUVWXYZ0123456789_'')"

section \<open>Python values and exceptions\<close>

text \<open>
  Every \<^verbatim>\<open>raise\<close>, failed \<^verbatim>\<open>assert\<close> and library exception is a value: a function
  that can raise returns \<open>error + 'a\<close>, with \<open>Inl\<close> the exception that propagates.
  \<open>LibraryError\<close> stands for whatever a call into MNE, MNE-BIDS or the file system
  raises.
\<close>

datatype error =
    ValueError string
  | KeyError string
  | TypeError string
  | AttributeError string
  | NameError string
  | NotImplementedError string
  | AssertionError string
  | UnicodeDecodeError
  | OverflowError
  | LibraryError string

text \<open>The value of a decimal digit string, most significant digit first.\<close>

definition digit_val :: "char \<Rightarrow> nat" where
  "digit_val c = (case map_of (zip ''0123456789'' [0, 1, 2, 3, 4, 5, 6, 7, 8, 9]) c of
        Some d \<Rightarrow> d
      | None \<Rightarrow> 0)"

definition digits_val :: "string \<Rightarrow> nat" where
  "digits_val ds = foldl (\<lambda>a c. 10 * a + digit_val c) 0 ds"

text \<open>
  \<^verbatim>\<open>int(s)\<close> on a string: surrounding whitespace is stripped, one sign is allowed, and
  the rest must be decimal digits, in which single underscores may separate digits.
  Anything else raises \<^verbatim>\<open>ValueError\<close>.
\<close>

definition str_strip :: "string \<Rightarrow> string" where
  "str_strip s = rev (dropWhile is_space (rev (dropWhile is_space s)))"

definition int_digits_ok :: "string \<Rightarrow> bool" where
  "int_digits_ok ds =
     (ds \<noteq> [] \<and> is_digit (hd ds) \<and> is_digit (last ds)
      \<and> list_all (\<lambda>c. is_digit c \<or> c = CHR ''_'') ds \<and> \<not> str_in ''__'' ds)"

definition int_of_digits :: "string \<Rightarrow> error + int" where
  "int_of_digits ds =
     (if int_digits_ok ds then Inr (int (digits_val (filter is_digit ds)))
      else Inl (ValueError ''invalid literal for int() with base 10''))"

definition py_int :: "string \<Rightarrow> error + int" where
  "py_int s =
     (case str_strip s of
        [] \<Rightarrow> Inl (ValueError ''invalid literal for int() with base 10'')
      | c # cs \<Rightarrow>
          if c = CHR ''-'' then (case int_of_digits cs of Inl e \<Rightarrow> Inl e | Inr n \<Rightarrow> Inr (- n))
          else if c = CHR ''+'' then int_of_digits cs
          else int_of_digits (c # cs))"

section \<open>Reading age and sex from the EDF header\<close>

text \<open>
  \<^verbatim>\<open>
  def _read_edf_header(file_path):
      f = open(file_path, "rb")
      header = f.read(88)
      f.close()
      return header
  \<close>
  The argument is the content of the file, a byte string.
\<close>

definition read_edf_header :: "string \<Rightarrow> string" where
  "read_edf_header content = take 88 content"

text \<open>\<^verbatim>\<open>bytes.decode("ascii")\<close>: strict, a byte above 127 raises.\<close>

definition is_ascii :: "char \<Rightarrow> bool" where
  "is_ascii b = ((of_char b :: nat) < 128)"

definition decode_ascii :: "string \<Rightarrow> error + string" where
  "decode_ascii bs = (if list_all is_ascii bs then Inr bs else Inl UnicodeDecodeError)"

text \<open>
  \<^verbatim>\<open>re.findall(r"Age:(\d+)", patient_id)\<close>: the digit runs of the matches, found from
  the left; the scan resumes after each match.
\<close>

function findall_age :: "string \<Rightarrow> string list" where
  "findall_age [] = []"
| "findall_age (c # cs) =
     (let ds = takeWhile is_digit (drop 3 cs)
      in if starts_with (c # cs) ''Age:'' \<and> ds \<noteq> []
         then ds # findall_age (drop (3 + length ds) cs)
         else findall_age cs)"
  by pat_completeness auto
termination
  by (relation "measure length") auto

text \<open>
  \<^verbatim>\<open>re.findall(r"\s([F|M])\s", patient_id)\<close>: the class \<^verbatim>\<open>[F|M]\<close> holds the three
  characters \<open>F\<close>, \<open>|\<close> and \<open>M\<close>; a match consumes both whitespace characters.
\<close>

fun findall_gender :: "string \<Rightarrow> string list" where
  "findall_gender (a # b # c # rest) =
     (if is_space a \<and> b \<in> set ''F|M'' \<and> is_space c
      then [b] # findall_gender rest
      else findall_gender (b # c # rest))"
| "findall_gender s = []"

text \<open>
  \<^verbatim>\<open>
  def _parse_age_and_gender_from_edf_header(file_path):
      header = _read_edf_header(file_path)
      patient_id = header[8:].decode("ascii")
      age = -1
      found_age = re.findall(r"Age:(\d+)", patient_id)
      if len(found_age) == 1:
          age = int(found_age[0])
      gender = "X"
      found_gender = re.findall(r"\s([F|M])\s", patient_id)
      if len(found_gender) == 1:
          gender = found_gender[0]
      return age, gender
  \<close>
\<close>

definition age_of_matches :: "string list \<Rightarrow> error + int" where
  "age_of_matches found_age =
     (if length found_age = 1 then py_int (found_age ! 0) else Inr (- 1))"

definition gender_of_matches :: "string list \<Rightarrow> string" where
  "gender_of_matches found_gender =
     (if length found_gender = 1 then found_gender ! 0 else ''X'')"

definition patient_field :: "string \<Rightarrow> string" where
  "patient_field content = drop 8 (read_edf_header content)"

definition parse_age_and_gender_from_edf_header :: "string \<Rightarrow> error + (int \<times> string)" where
  "parse_age_and_gender_from_edf_header content =
     (case decode_ascii (patient_field content) of
        Inl e \<Rightarrow> Inl e
      | Inr patient_id \<Rightarrow>
          (case age_of_matches (findall_age patient_id) of
             Inl e \<Rightarrow> Inl e
           | Inr age \<Rightarrow> Inr (age, gender_of_matches (findall_gender patient_id))))"

text \<open>
  For stating what the sex scan finds: the letters \<open>F\<close> and \<open>M\<close> of a text that stand
  between two whitespace characters, at every position, in order.
\<close>

fun fm_tokens :: "string \<Rightarrow> string" where
  "fm_tokens (a # b # c # rest) =
     (if is_space a \<and> (b = CHR ''F'' \<or> b = CHR ''M'') \<and> is_space c then [b] else [])
     @ fm_tokens (b # c # rest)"
| "fm_tokens s = []"


section \<open>Channel-name normalisation\<close>

text \<open>
  \<^verbatim>\<open>
  def rename_tuh_channels(ch_name):
      exclude = ['LOC', 'ROC', 'EKG1']
      if 'EEG' in ch_name:
          out = ch_name.replace('EEG ', '').replace('-REF', '')
          out = out.replace('FP', 'Fp').replace('Z', 'z')  # Apply rules
      else:
          out = ch_name
      if out in exclude:
          out = ch_name
      return out
  \<close>
\<close>

definition exclude :: "string list" where
  "exclude = [''LOC'', ''ROC'', ''EKG1'']"

text \<open>The value of \<open>out\<close> before the exclusion test.\<close>

definition rewritten :: "string \<Rightarrow> string" where
  "rewritten ch_name =
     (if str_in ''EEG'' ch_name
      then str_replace ''Z'' ''z'' (str_replace ''FP'' ''Fp''
             (str_replace ''-REF'' [] (str_replace ''EEG '' [] ch_name)))
      else ch_name)"

definition rename_tuh_channels :: "string \<Rightarrow> string" where
  "rename_tuh_channels ch_name =
     (let out = rewritten ch_name
      in if out \<in> set exclude then ch_name else out)"

section \<open>Recording descriptors\<close>

text \<open>
  A date and time as \<^verbatim>\<open>datetime.datetime\<close> holds it; the time of day is kept as one
  number that nothing here reads.
\<close>

record datetime =
  dt_year :: int
  dt_month :: int
  dt_day :: int
  dt_clock :: nat

text \<open>
  The signal of a recording as MNE holds it: the channel names and the measurement date
  of \<^verbatim>\<open>raw.info\<close>.
\<close>

record raw =
  ch_names :: "string list"
  meas_date :: "datetime option"

text \<open>
  What the file system and the EDF reader give for one path: the bytes of the file, the
  outcome of \<^verbatim>\<open>_get_info(file_path, ...)\<close> with the \<^verbatim>\<open>meas_date\<close> of the info it returns,
  and the outcome of \<^verbatim>\<open>mne.io.read_raw_edf(file_path, preload=preload)\<close>. A corpus maps
  each path to these.
\<close>

record edf_file =
  edf_bytes :: string
  get_info :: "error + datetime option"
  read_raw_edf :: "error + raw"

type_synonym corpus = "string \<Rightarrow> edf_file"

text \<open>One column of the description table built by the indexer.\<close>

record description =
  path :: string
  version :: string
  year :: int
  month :: int
  day :: int
  subject :: string
  session :: int
  segment :: int

text \<open>
  \<^verbatim>\<open>
  def _parse_description_from_file_path(file_path):
      file_path = os.path.normpath(file_path)
      tokens = file_path.split(os.sep)
      version = 'V3.0'
      info, *_ = _get_info(file_path, stim_channel='auto', eog=None,
                           misc=None, exclude=(), infer_types=False, preload=False)
      date = info['meas_date']
      fname = tokens[-1].replace('.edf', '')
      subject_id, session, segment = fname.split('_')
      return {'path': file_path, 'version': version,
              'year': date.year, 'month': date.month, 'day': date.day,
              'subject': subject_id,
              'session': int(session[1:]), 'segment': int(segment[1:])}
  \<close>
  Paths are taken in normalised form, on which \<^verbatim>\<open>os.path.normpath\<close> is the identity,
  with \<open>/\<close> as \<^verbatim>\<open>os.sep\<close>. The unpacking of the three tokens raises \<^verbatim>\<open>ValueError\<close>
  for any other number of tokens; a missing date raises when \<^verbatim>\<open>date.year\<close> is read.
\<close>

definition fname_of :: "string \<Rightarrow> string" where
  "fname_of file_path = str_replace ''.edf'' [] (last (str_split (CHR ''/'') file_path))"

definition parse_description_from_file_path :: "corpus \<Rightarrow> string \<Rightarrow> error + description" where
  "parse_description_from_file_path fs file_path =
     (case get_info (fs file_path) of
        Inl e \<Rightarrow> Inl e
      | Inr date \<Rightarrow>
          (case str_split (CHR ''_'') (fname_of file_path) of
             [subject_id, session_tok, segment_tok] \<Rightarrow>
               (case date of
                  None \<Rightarrow> Inl (AttributeError ''NoneType object has no attribute year'')
                | Some d \<Rightarrow>
                    (case py_int (drop 1 session_tok) of
                       Inl e \<Rightarrow> Inl e
                     | Inr ses \<Rightarrow>
                         (case py_int (drop 1 segment_tok) of
                            Inl e \<Rightarrow> Inl e
                          | Inr seg \<Rightarrow>
                              Inr \<lparr>path = file_path, version = ''V3.0'',
                                   year = dt_year d, month = dt_month d, day = dt_day d,
                                   subject = subject_id, session = ses, segment = seg\<rparr>)))
           | _ \<Rightarrow> Inl (ValueError ''wrong number of values to unpack (expected 3)'')))"

section \<open>Chronological index\<close>

text \<open>
  \<^verbatim>\<open>
  def _create_chronological_description(file_paths):
      descriptions = []
      for file_path in file_paths:
          description = _parse_description_from_file_path(file_path)
          descriptions.append(pd.Series(description))
      descriptions = pd.concat(descriptions, axis=1)
      descriptions.sort_values(
          ["subject", "session", "segment", "year", "month", "day"],
          axis=1, inplace=True)
      descriptions = descriptions.T.reset_index(drop=True).T
      return descriptions
  \<close>
  The loop has no handler: the first file that fails ends it with that exception.
  \<^verbatim>\<open>pd.concat\<close> raises on an empty list. \<^verbatim>\<open>sort_values\<close> with several keys is
  pandas' lexicographic sort, which is stable: columns with equal keys keep the order
  in which they were appended. The result is the list of columns, numbered from 0.
\<close>

fun parse_descriptions :: "corpus \<Rightarrow> string list \<Rightarrow> error + description list" where
  "parse_descriptions fs [] = Inr []"
| "parse_descriptions fs (file_path # file_paths) =
     (case parse_description_from_file_path fs file_path of
        Inl e \<Rightarrow> Inl e
      | Inr d \<Rightarrow>
          (case parse_descriptions fs file_paths of
             Inl e \<Rightarrow> Inl e
           | Inr ds \<Rightarrow> Inr (d # ds)))"

definition sort_columns :: "description \<Rightarrow> string \<times> int \<times> int \<times> int \<times> int \<times> int" where
  "sort_columns d = (subject d, session d, segment d, year d, month d, day d)"

definition sort_values :: "description list \<Rightarrow> description list" where
  "sort_values ds = sort_key sort_columns ds"

definition create_chronological_description ::
    "corpus \<Rightarrow> string list \<Rightarrow> error + description list" where
  "create_chronological_description fs file_paths =
     (case parse_descriptions fs file_paths of
        Inl e \<Rightarrow> Inl e
      | Inr ds \<Rightarrow>
          if ds = [] then Inl (ValueError ''No objects to concatenate'')
          else Inr (sort_values ds))"

section \<open>The dataset class\<close>

text \<open>
  The \<^verbatim>\<open>recording_ids\<close> argument of \<^verbatim>\<open>TUH.__init__\<close>: \<^verbatim>\<open>None\<close>, a list of
  integers or one integer.
\<close>

datatype recording_ids = NoIds | IdList "int list" | OneId int

text \<open>
  \<^verbatim>\<open>descriptions[recording_ids]\<close> on the table whose columns are labelled 0 to n - 1:
  a list selects the columns with these labels in the order of the list, and a label
  that is not a column raises \<^verbatim>\<open>KeyError\<close>. A single integer selects one column as a
  series, which has no \<^verbatim>\<open>columns\<close>: the loop that follows raises.
\<close>

definition is_label :: "description list \<Rightarrow> int \<Rightarrow> bool" where
  "is_label descriptions i = (0 \<le> i \<and> i < int (length descriptions))"

definition restrict_to_recording_ids ::
    "recording_ids \<Rightarrow> description list \<Rightarrow> error + description list" where
  "restrict_to_recording_ids ids descriptions =
     (case ids of
        NoIds \<Rightarrow> Inr descriptions
      | IdList is \<Rightarrow>
          if list_all (is_label descriptions) is
          then Inr (map (\<lambda>i. descriptions ! nat i) is)
          else Inl (KeyError ''not in index'')
      | OneId i \<Rightarrow>
          if is_label descriptions i
          then Inl (AttributeError ''Series object has no attribute columns'')
          else Inl (KeyError ''not in index''))"

text \<open>A dataset of the corpus: the signal with its description, age and sex added.\<close>

record tuh_dataset =
  ds_raw :: raw
  ds_description :: description
  ds_age :: int
  ds_gender :: string

text \<open>
  \<^verbatim>\<open>datetime.replace(year, month, day)\<close> raises \<^verbatim>\<open>ValueError\<close> unless the result is
  a date of the calendar.
\<close>

definition is_leap :: "int \<Rightarrow> bool" where
  "is_leap y = (y mod 4 = 0 \<and> (y mod 100 \<noteq> 0 \<or> y mod 400 = 0))"

definition days_in_month :: "int \<Rightarrow> int \<Rightarrow> int" where
  "days_in_month y m =
     (if m = 2 then (if is_leap y then 29 else 28)
      else if m = 4 \<or> m = 6 \<or> m = 9 \<or> m = 11 then 30
      else 31)"

definition valid_date :: "int \<Rightarrow> int \<Rightarrow> int \<Rightarrow> bool" where
  "valid_date y m d =
     (1 \<le> y \<and> y \<le> 9999 \<and> 1 \<le> m \<and> m \<le> 12 \<and> 1 \<le> d \<and> d \<le> days_in_month y m)"

definition datetime_replace :: "datetime \<Rightarrow> int \<Rightarrow> int \<Rightarrow> int \<Rightarrow> error + datetime" where
  "datetime_replace t y m d =
     (if valid_date y m d then Inr (t\<lparr>dt_year := y, dt_month := m, dt_day := d\<rparr>)
      else Inl (ValueError ''date out of range''))"

text \<open>
  \<^verbatim>\<open>
  def _create_dataset(description, target_name, preload, add_physician_reports):
      file_path = description.loc['path']
      age, gender = _parse_age_and_gender_from_edf_header(file_path)
      raw = mne.io.read_raw_edf(file_path, preload=preload)
      meas_date = datetime(1, 1, 1, tzinfo=timezone.utc) \
          if raw.info['meas_date'] is None else raw.info['meas_date']
      raw.set_meas_date(meas_date.replace(*description[['year', 'month', 'day']]))
      d = {'age': int(age), 'gender': gender}
      ...
      return BaseDataset(raw, description, target_name=target_name)
  \<close>
  The notebook imports the module \<^verbatim>\<open>datetime\<close> and no \<^verbatim>\<open>timezone\<close>: the branch for a
  missing date raises \<^verbatim>\<open>NameError\<close>. \<^verbatim>\<open>add_physician_reports\<close> is always false here.
\<close>

definition create_dataset :: "corpus \<Rightarrow> description \<Rightarrow> error + tuh_dataset" where
  "create_dataset fs d =
     (case parse_age_and_gender_from_edf_header (edf_bytes (fs (path d))) of
        Inl e \<Rightarrow> Inl e
      | Inr (age, gender) \<Rightarrow>
          (case read_raw_edf (fs (path d)) of
             Inl e \<Rightarrow> Inl e
           | Inr r \<Rightarrow>
               (case meas_date r of
                  None \<Rightarrow> Inl (NameError ''name timezone is not defined'')
                | Some t \<Rightarrow>
                    (case datetime_replace t (year d) (month d) (day d) of
                       Inl e \<Rightarrow> Inl e
                     | Inr t' \<Rightarrow>
                         Inr \<lparr>ds_raw = r\<lparr>meas_date := Some t'\<rparr>, ds_description = d,
                              ds_age = age, ds_gender = gender\<rparr>))))"

fun create_datasets :: "corpus \<Rightarrow> description list \<Rightarrow> error + tuh_dataset list" where
  "create_datasets fs [] = Inr []"
| "create_datasets fs (d # ds) =
     (case create_dataset fs d of
        Inl e \<Rightarrow> Inl e
      | Inr x \<Rightarrow>
          (case create_datasets fs ds of
             Inl e \<Rightarrow> Inl e
           | Inr xs \<Rightarrow> Inr (x # xs)))"

text \<open>
  \<^verbatim>\<open>
  def __init__(self, path, recording_ids=None, target_name=None,
               preload=False, add_physician_reports=False, n_jobs=1):
      file_paths = glob.glob(os.path.join(path, '**/*.edf'), recursive=True)
      descriptions = _create_chronological_description(file_paths)
      # limit to specified recording ids before doing slow stuff
      if recording_ids is not None:
          descriptions = descriptions[recording_ids]
      # this is the second loop (slow)
      base_datasets = [self._create_dataset(descriptions[i], ...)
                       for i in descriptions.columns]
      super().__init__(base_datasets)
  \<close>
  \<open>file_paths\<close> is what \<^verbatim>\<open>glob.glob\<close> returned, in its order. Both settings of
  \<^verbatim>\<open>n_jobs\<close> map \<^verbatim>\<open>_create_dataset\<close> over the columns in their order. With a label
  given twice, \<^verbatim>\<open>descriptions[i]\<close> is a table of two columns, and opening its path
  raises \<^verbatim>\<open>TypeError\<close>. The constructor of the base class, reached through
  \<^verbatim>\<open>super().__init__(base_datasets)\<close>, asserts that the list of datasets is not empty
  (\<^verbatim>\<open>assert len(self.datasets) > 0, 'datasets should not be an empty iterable'\<close>).
\<close>

definition concat_dataset_init :: "'a list \<Rightarrow> error + 'a list" where
  "concat_dataset_init base_datasets =
     (if base_datasets = [] then Inl (AssertionError ''datasets should not be an empty iterable'')
      else Inr base_datasets)"

definition TUH_init :: "corpus \<Rightarrow> string list \<Rightarrow> recording_ids \<Rightarrow> error + tuh_dataset list" where
  "TUH_init fs file_paths ids =
     (case create_chronological_description fs file_paths of
        Inl e \<Rightarrow> Inl e
      | Inr descriptions \<Rightarrow>
          (case restrict_to_recording_ids ids descriptions of
             Inl e \<Rightarrow> Inl e
           | Inr selected \<Rightarrow>
               (case (case ids of
                        IdList is \<Rightarrow>
                          if distinct is then create_datasets fs selected
                          else Inl (TypeError ''expected str, bytes or os.PathLike object'')
                      | _ \<Rightarrow> create_datasets fs selected) of
                  Inl e \<Rightarrow> Inl e
                | Inr base_datasets \<Rightarrow> concat_dataset_init base_datasets)))"

section \<open>The abnormal-corpus dataset class\<close>

text \<open>
  \<^verbatim>\<open>
  def _parse_additional_description_from_file_path(file_path):
      file_path = os.path.normpath(file_path)
      tokens = file_path.split(os.sep)
      assert ('abnormal' in tokens or 'normal' in tokens), (
          'No pathology labels found.')
      assert ('train' in tokens or 'eval' in tokens), (
          'No train or eval set information found.')
      return {'version': 'V3.0',
              'train': 'train' in tokens,
              'pathological': 'abnormal' in tokens}
  \<close>
\<close>

definition parse_additional_description_from_file_path :: "string \<Rightarrow> error + (bool \<times> bool)" where
  "parse_additional_description_from_file_path file_path =
     (let tokens = str_split (CHR ''/'') file_path
      in if \<not> (''abnormal'' \<in> set tokens \<or> ''normal'' \<in> set tokens)
           then Inl (AssertionError ''No pathology labels found.'')
         else if \<not> (''train'' \<in> set tokens \<or> ''eval'' \<in> set tokens)
           then Inl (AssertionError ''No train or eval set information found.'')
         else Inr (''train'' \<in> set tokens, ''abnormal'' \<in> set tokens))"

record tuab_dataset = tuh_dataset +
  ds_train :: bool
  ds_pathological :: bool

fun add_descriptions :: "tuh_dataset list \<Rightarrow> error + tuab_dataset list" where
  "add_descriptions [] = Inr []"
| "add_descriptions (x # xs) =
     (case parse_additional_description_from_file_path (path (ds_description x)) of
        Inl e \<Rightarrow> Inl e
      | Inr (tr, pa) \<Rightarrow>
          (case add_descriptions xs of
             Inl e \<Rightarrow> Inl e
           | Inr ys \<Rightarrow>
               Inr (tuh_dataset.extend x \<lparr>ds_train = tr, ds_pathological = pa\<rparr> # ys)))"

text \<open>
  \<^verbatim>\<open>TUHAbnormal.__init__\<close>: the parent's constructor, then the split and pathology
  labels of every path.
\<close>

definition TUHAbnormal_init ::
    "corpus \<Rightarrow> string list \<Rightarrow> recording_ids \<Rightarrow> error + tuab_dataset list" where
  "TUHAbnormal_init fs file_paths ids =
     (case TUH_init fs file_paths ids of
        Inl e \<Rightarrow> Inl e
      | Inr xs \<Rightarrow> add_descriptions xs)"

section \<open>Converting one recording\<close>

text \<open>A cell of the description table that holds an integer or a string.\<close>

datatype pyval = IntV int | StrV string

text \<open>
  One row of \<^verbatim>\<open>concat_ds.description\<close> as the converter reads it (\<^verbatim>\<open>desc\<close> in
  the source): the subject is the integer code, the raw subject token is
  \<^verbatim>\<open>subject_orig\<close>.
\<close>

record recording =
  desc_path :: string
  desc_version :: string
  desc_year :: int
  desc_month :: int
  desc_day :: int
  desc_subject :: int
  desc_session :: int
  desc_segment :: pyval
  desc_age :: int
  desc_gender :: string
  desc_train :: bool
  desc_pathological :: bool
  desc_subject_orig :: string

text \<open>A member of \<^verbatim>\<open>concat_ds.datasets\<close>: \<^verbatim>\<open>ds.raw\<close> and \<^verbatim>\<open>ds.description\<close>.\<close>

record dataset =
  raw_of :: raw
  description_of :: recording

text \<open>The arguments of the \<^verbatim>\<open>BIDSPath\<close> built for a recording.\<close>

record bids_path =
  bids_subject :: string
  bids_session :: string
  bids_task :: string
  bids_run :: pyval
  bids_root :: string
  bids_datatype :: string

text \<open>
  One row of the summary table:
  \<^verbatim>\<open>subject_info | {'meas_date': raw.info['meas_date'], 'session': desc['session']}\<close>.
\<close>

record info_row =
  info_participant_id :: string
  info_subject :: string
  info_birthday :: "int \<times> int \<times> int"
  info_sex :: int
  info_train :: bool
  info_pathological :: bool
  info_handedness :: "string option"
  info_meas_date :: "datetime option"
  info_session :: int

text \<open>
  The calls into MNE and MNE-BIDS made for one recording, each with the exceptions it
  may raise: \<^verbatim>\<open>raw.pick_types(eeg=True)\<close>; \<^verbatim>\<open>raw.rename_channels(f)\<close>; the four
  montage lines (\<^verbatim>\<open>make_standard_montage\<close>, \<^verbatim>\<open>np.intersect1d\<close>, \<^verbatim>\<open>pick_channels\<close>,
  \<^verbatim>\<open>set_montage\<close>); and \<^verbatim>\<open>BIDSPath(..., check=True)\<close> with \<^verbatim>\<open>write_raw_bids\<close>.
\<close>

record mne_lib =
  pick_types_eeg :: "raw \<Rightarrow> error + raw"
  rename_channels :: "(string \<Rightarrow> string) \<Rightarrow> raw \<Rightarrow> error + raw"
  set_standard_montage :: "raw \<Rightarrow> error + raw"
  write_raw_bids :: "raw \<Rightarrow> bids_path \<Rightarrow> error + unit"

text \<open>
  \<^verbatim>\<open>re.findall(r'\_tcp\_(\w\w)', desc['path'])\<close>: the two word characters that follow
  each \<open>_tcp_\<close>, found from the left.
\<close>

function findall_tcp :: "string \<Rightarrow> string list" where
  "findall_tcp [] = []"
| "findall_tcp (c # cs) =
     (let m = drop 4 cs
      in if starts_with (c # cs) ''_tcp_'' \<and> 2 \<le> length m \<and> is_word (m ! 0) \<and> is_word (m ! 1)
         then take 2 m # findall_tcp (drop 6 cs)
         else findall_tcp cs)"
  by pat_completeness auto
termination
  by (relation "measure length") auto

text \<open>
  \<^verbatim>\<open>
  ref = re.findall(r'\_tcp\_(\w\w)', desc['path'])
  if len(ref) != 1:
      raise ValueError('Expecting one directory level with tcp in it.')
  elif ref[0] == 'ar':  # average reference
      reference = ''
  elif ref[0] == 'le':  # linked ears
      reference = ''
  else:
      raise ValueError(f'Unknown reference found in file name: {ref[0]}.')
  \<close>
\<close>

definition tcp_reference :: "string \<Rightarrow> error + string" where
  "tcp_reference p =
     (let ref = findall_tcp p
      in if length ref \<noteq> 1 then Inl (ValueError ''Expecting one directory level with tcp in it.'')
         else if ref ! 0 = ''ar'' then Inr []
         else if ref ! 0 = ''le'' then Inr []
         else Inl (ValueError (''Unknown reference found in file name: '' @ ref ! 0 @ ''.'')))"

text \<open>
  \<^verbatim>\<open>
  birthday = datetime.datetime(desc['year'] - desc['age'], desc['month'], 1)
  birthday -= datetime.timedelta(weeks=4)
  \<close>
  The constructor raises \<^verbatim>\<open>ValueError\<close> outside the years 1 to 9999 and the months 1
  to 12; four weeks before the first of January of the year 1 there is no date, and the
  subtraction raises \<^verbatim>\<open>OverflowError\<close>. Otherwise the result lies in the month before.
\<close>

definition make_birthday :: "int \<Rightarrow> int \<Rightarrow> int \<Rightarrow> error + (int \<times> int \<times> int)" where
  "make_birthday y age m =
     (let b = y - age
      in if b < 1 \<or> 9999 < b then Inl (ValueError ''year is out of range'')
         else if m < 1 \<or> 12 < m then Inl (ValueError ''month must be in 1..12'')
         else if m = 1 then (if b = 1 then Inl OverflowError else Inr (b - 1, 12, 4))
         else Inr (b, m - 1, days_in_month b (m - 1) - 27))"

text \<open>\<^verbatim>\<open>SEX_TO_MNE = {'n/a': 0, 'm': 1, 'f': 2}\<close>.\<close>

definition SEX_TO_MNE :: "(string \<times> int) list" where
  "SEX_TO_MNE = [(''n/a'', 0), (''m'', 1), (''f'', 2)]"

text \<open>\<^verbatim>\<open>str(n)\<close> for an integer and \<^verbatim>\<open>s.zfill(width)\<close>.\<close>

definition digit_char :: "nat \<Rightarrow> char" where
  "digit_char d = ''0123456789'' ! d"

function str_nat :: "nat \<Rightarrow> string" where
  "str_nat n = (if n < 10 then [digit_char n] else str_nat (n div 10) @ [digit_char (n mod 10)])"
  by pat_completeness auto
termination
  by (relation "measure id") auto

declare str_nat.simps [simp del]

definition py_str :: "int \<Rightarrow> string" where
  "py_str i = (if i < 0 then CHR ''-'' # str_nat (nat (- i)) else str_nat (nat i))"

definition zfill :: "nat \<Rightarrow> string \<Rightarrow> string" where
  "zfill width s =
     (if width \<le> length s then s
      else (case s of
              [] \<Rightarrow> replicate width (CHR ''0'')
            | c # cs \<Rightarrow>
                if c = CHR ''+'' \<or> c = CHR ''-''
                then c # replicate (width - length s) (CHR ''0'') @ cs
                else replicate (width - length s) (CHR ''0'') @ s))"

text \<open>
  \<^verbatim>\<open>
  mrn = str(desc['subject']).zfill(4)
  session_nb = str(desc['session']).zfill(3)
  bids_path = BIDSPath(subject=mrn, session=session_nb, task=task, run=desc['segment'],
                       root=bids_save_dir, datatype='eeg', check=True)
  \<close>
\<close>

definition bids_path_of :: "string \<Rightarrow> recording \<Rightarrow> bids_path" where
  "bids_path_of bids_save_dir desc =
     \<lparr>bids_subject = zfill 4 (py_str (desc_subject desc)),
      bids_session = zfill 3 (py_str (desc_session desc)),
      bids_task = ''rest'',
      bids_run = desc_segment desc,
      bids_root = bids_save_dir,
      bids_datatype = ''eeg''\<rparr>"

text \<open>
  \<^verbatim>\<open>_convert_tuh_recording_to_bids(ds, bids_save_dir, desc=None)\<close>, in the order of its
  statements. The result is the path written and the row returned; \<open>Inl\<close> is the
  exception that leaves the function, and then nothing was written for the recording.
  The line frequency and subject information stored in \<^verbatim>\<open>raw.info\<close> are not part of
  \<^typ>\<open>raw\<close>.
\<close>

definition convert_tuh_recording_to_bids ::
    "mne_lib \<Rightarrow> dataset \<Rightarrow> string \<Rightarrow> recording option \<Rightarrow> error + (bids_path \<times> info_row)" where
  "convert_tuh_recording_to_bids lib ds bids_save_dir desc_arg =
     (case pick_types_eeg lib (raw_of ds) of
        Inl e \<Rightarrow> Inl e
      | Inr raw1 \<Rightarrow>
     let desc = (case desc_arg of None \<Rightarrow> description_of ds | Some d \<Rightarrow> d) in
     (case tcp_reference (desc_path desc) of
        Inl e \<Rightarrow> Inl e
      | Inr reference \<Rightarrow>
     (case rename_channels lib rename_tuh_channels raw1 of
        Inl e \<Rightarrow> Inl e
      | Inr raw2 \<Rightarrow>
     (case set_standard_montage lib raw2 of
        Inl e \<Rightarrow> Inl e
      | Inr raw3 \<Rightarrow>
     (case make_birthday (desc_year desc) (desc_age desc) (desc_month desc) of
        Inl e \<Rightarrow> Inl e
      | Inr birthday \<Rightarrow>
     let sex = str_lower (desc_gender desc) in
     (case map_of SEX_TO_MNE sex of
        None \<Rightarrow> Inl (KeyError sex)
      | Some sex_code \<Rightarrow>
     let p = bids_path_of bids_save_dir desc in
     (case write_raw_bids lib raw3 p of
        Inl e \<Rightarrow> Inl e
      | Inr u \<Rightarrow>
          Inr (p, \<lparr>info_participant_id = bids_subject p,
                   info_subject = desc_subject_orig desc,
                   info_birthday = birthday,
                   info_sex = sex_code,
                   info_train = desc_train desc,
                   info_pathological = desc_pathological desc,
                   info_handedness = None,
                   info_meas_date = meas_date raw3,
                   info_session = desc_session desc\<rparr>))))))))"

section \<open>Converting the corpus\<close>

text \<open>
  \<^verbatim>\<open>series.unique()\<close>: the distinct values in order of first appearance.
\<close>

definition unique :: "'a list \<Rightarrow> 'a list" where
  "unique xs = rev (remdups (rev xs))"

text \<open>
  The truth value of a NumPy array in an \<^verbatim>\<open>if\<close>: that of its only element; with more
  than one element \<^verbatim>\<open>ValueError\<close> is raised (the truth value is ambiguous). An empty
  array counts as false (NumPy before 2.2, which warns).
\<close>

fun array_truth :: "bool list \<Rightarrow> error + bool" where
  "array_truth [] = Inr False"
| "array_truth [b] = Inr b"
| "array_truth bs =
     Inl (ValueError ''The truth value of an array with more than one element is ambiguous'')"

text \<open>
  \<^verbatim>\<open>
  n_segments_per_session = description.groupby(
      ['subject', 'session'])['segment'].apply(list).apply(len)
  \<close>
  One count per (subject, session) group, the groups in ascending order of their key.
\<close>

definition n_segments_per_session :: "recording list \<Rightarrow> nat list" where
  "n_segments_per_session description =
     (let keys = map (\<lambda>r. (desc_subject r, desc_session r)) description
      in map (\<lambda>k. length (filter (\<lambda>k'. k' = k) keys)) (sort (remdups keys)))"

text \<open>
  \<^verbatim>\<open>
  if concat_split_files:
      n_segments_per_session = ...
      if n_segments_per_session.unique() != np.array([1]):
          raise NotImplementedError(
              'Concatenation of split files is not implemented yet.')
      else:
          description['segment'] = '001'
  \<close>
  The comparison is element by element, and its result is the condition of the
  \<^verbatim>\<open>if\<close>.
\<close>

definition concat_split_files_step :: "recording list \<Rightarrow> error + recording list" where
  "concat_split_files_step description =
     (case array_truth (map (\<lambda>n. n \<noteq> 1) (unique (n_segments_per_session description))) of
        Inl e \<Rightarrow> Inl e
      | Inr True \<Rightarrow> Inl (NotImplementedError ''Concatenation of split files is not implemented yet.'')
      | Inr False \<Rightarrow> Inr (map (\<lambda>r. r\<lparr>desc_segment := StrV ''001''\<rparr>) description))"

text \<open>
  \<^verbatim>\<open>
  if reset_session_indices:
      description['session'] = description.groupby(
          'subject')['session'].transform(lambda x: np.arange(len(x)) + 1)
  \<close>
  For each subject, in ascending order of the subjects, the rows of the subject are
  found by their positions, and the values 1, 2, ... are written to the session column
  at these positions.
\<close>

definition group_positions :: "'k list \<Rightarrow> 'k \<Rightarrow> nat list" where
  "group_positions keys k = filter (\<lambda>i. keys ! i = k) [0 ..< length keys]"

definition arange_plus_one :: "nat \<Rightarrow> int list" where
  "arange_plus_one n = map (\<lambda>j. int j + 1) [0 ..< n]"

fun scatter :: "nat list \<Rightarrow> 'a list \<Rightarrow> 'a list \<Rightarrow> 'a list" where
  "scatter (p # ps) (v # vs) column = scatter ps vs (column[p := v])"
| "scatter ps vs column = column"

definition transform_group :: "int list \<Rightarrow> int list \<Rightarrow> int \<Rightarrow> int list" where
  "transform_group subjects column k =
     (let ps = group_positions subjects k
      in scatter ps (arange_plus_one (length ps)) column)"

definition transform_sessions :: "recording list \<Rightarrow> int list" where
  "transform_sessions description =
     (let subjects = map desc_subject description
      in foldl (transform_group subjects) (map desc_session description)
           (sort (remdups subjects)))"

definition reset_session_indices_step :: "recording list \<Rightarrow> recording list" where
  "reset_session_indices_step description =
     map (\<lambda>(r, v). r\<lparr>desc_session := v\<rparr>) (zip description (transform_sessions description))"

text \<open>
  \<^verbatim>\<open>concat_ds.split(by='pathological')['False']\<close>: the datasets that are not
  pathological; without any, the key is missing.
\<close>

definition split_healthy :: "dataset list \<Rightarrow> error + dataset list" where
  "split_healthy concat_ds =
     (let healthy = filter (\<lambda>ds. \<not> desc_pathological (description_of ds)) concat_ds
      in if healthy = [] then Inl (KeyError ''False'') else Inr healthy)"

text \<open>
  \<^verbatim>\<open>
  df_info = list()
  for ds, (_, desc) in zip(concat_ds.datasets, description.iterrows()):
      assert ds.description['path'] == desc['path']
      info = _convert_tuh_recording_to_bids(ds, bids_save_dir, desc=desc)
      df_info.append(info)
  df_info = pd.DataFrame(df_info)
  df_info.to_csv(bids_save_dir / 'participants_extra.csv')
  \<close>
  The loop has no handler. Its outcome is the list of the paths written, in order, and
  either the table that is saved or the exception that ended the loop, after which
  nothing is saved.
\<close>

fun convert_recordings ::
    "mne_lib \<Rightarrow> string \<Rightarrow> (dataset \<times> recording) list \<Rightarrow> bids_path list \<times> (error + info_row list)" where
  "convert_recordings lib bids_save_dir [] = ([], Inr [])"
| "convert_recordings lib bids_save_dir ((ds, desc) # rest) =
     (if desc_path (description_of ds) \<noteq> desc_path desc then ([], Inl (AssertionError []))
      else (case convert_tuh_recording_to_bids lib ds bids_save_dir (Some desc) of
              Inl e \<Rightarrow> ([], Inl e)
            | Inr (p, info) \<Rightarrow>
                (case convert_recordings lib bids_save_dir rest of
                   (written, Inl e) \<Rightarrow> (p # written, Inl e)
                 | (written, Inr df_info) \<Rightarrow> (p # written, Inr (info # df_info)))))"

text \<open>
  \<^verbatim>\<open>convert_tuab_to_bids(concat_ds, bids_save_dir, healthy_only=False,
  reset_session_indices=True, concat_split_files=True, n_jobs=1)\<close>; \<^verbatim>\<open>n_jobs\<close> is
  not read.
\<close>

definition convert_tuab_to_bids ::
    "mne_lib \<Rightarrow> dataset list \<Rightarrow> string \<Rightarrow> bool \<Rightarrow> bool \<Rightarrow> bool
       \<Rightarrow> bids_path list \<times> (error + info_row list)" where
  "convert_tuab_to_bids lib concat_ds bids_save_dir healthy_only reset_session_indices
       concat_split_files =
     (case (if healthy_only then split_healthy concat_ds else Inr concat_ds) of
        Inl e \<Rightarrow> ([], Inl e)
      | Inr datasets \<Rightarrow>
     let description = map description_of datasets in
     (case (if concat_split_files then concat_split_files_step description else Inr description) of
        Inl e \<Rightarrow> ([], Inl e)
      | Inr description1 \<Rightarrow>
     let description2 =
           (if reset_session_indices then reset_session_indices_step description1
            else description1)
     in convert_recordings lib bids_save_dir (zip datasets description2)))"

text \<open>
  \<^verbatim>\<open>
  def run_tuab_bidsification(tuab_source_dir, bids_save_dir):
      concat_ds = TUHAbnormal(tuab_source_dir, recording_ids=None, n_jobs=-1)
      subjects = concat_ds.description.subject.astype('category').cat.codes
      concat_ds.set_description({'subject_orig': concat_ds.description.subject})
      concat_ds.set_description({'subject': subjects}, overwrite=True)
      convert_tuab_to_bids(concat_ds, bids_save_dir=bids_save_dir, n_jobs=-1)
  \<close>
  The category codes number the distinct subject tokens in ascending order from 0.
\<close>

definition cat_codes :: "string list \<Rightarrow> int list" where
  "cat_codes xs =
     (let categories = sort (remdups xs)
      in map (\<lambda>x. int (length (takeWhile (\<lambda>c. c \<noteq> x) categories))) xs)"

definition coded_dataset :: "tuab_dataset \<Rightarrow> int \<Rightarrow> dataset" where
  "coded_dataset x code =
     (let d = ds_description x
      in \<lparr>raw_of = ds_raw x,
          description_of =
            \<lparr>desc_path = path d, desc_version = version d,
             desc_year = year d, desc_month = month d, desc_day = day d,
             desc_subject = code, desc_session = session d, desc_segment = IntV (segment d),
             desc_age = ds_age x, desc_gender = ds_gender x,
             desc_train = ds_train x, desc_pathological = ds_pathological x,
             desc_subject_orig = subject d\<rparr>\<rparr>)"

definition run_tuab_bidsification ::
    "mne_lib \<Rightarrow> corpus \<Rightarrow> string list \<Rightarrow> string \<Rightarrow> bids_path list \<times> (error + info_row list)" where
  "run_tuab_bidsification lib fs file_paths bids_save_dir =
     (case TUHAbnormal_init fs file_paths NoIds of
        Inl e \<Rightarrow> ([], Inl e)
      | Inr xs \<Rightarrow>
          (let subjects = cat_codes (map (\<lambda>x. subject (ds_description x)) xs);
               concat_ds = map (\<lambda>(x, code). coded_dataset x code) (zip xs subjects)
           in convert_tuab_to_bids lib concat_ds bids_save_dir False True True))"

section \<open>Pipeline configurations\<close>

text \<open>
  \<^verbatim>\<open>
  df_participants = pd.read_csv(bids_root / 'participants.tsv', sep='\t')
  df_participants_extra = pd.read_csv(bids_root / 'participants_extra.csv').iloc[:, 1:]
  df_participants_extra['participant_id'] = (
      'sub-' + df_participants_extra.participant_id.astype(str).str.zfill(4))
  df_participants = df_participants_extra.query('session == 1').reset_index().iloc[:, 1:] \
      .merge(df_participants, on='participant_id')
  df_participants = df_participants.query("not pathological")
  df_participants = df_participants.loc[
      ~df_participants.participant_id.isin(['sub-0388', 'sub-0766', 'sub-2289'])]
  subjects = df_participants.participant_id
  \<close>
  The summary table is read back from its file, where the zero-filled participant
  numbers are read as integers. \<open>participants_tsv\<close> is the participant column of the
  file written with the converted corpus; the merge keeps, for each row of the left
  table in order, one row per equal entry of that column.
\<close>

definition read_int :: "string \<Rightarrow> int" where
  "read_int s =
     (case s of
        [] \<Rightarrow> 0
      | c # cs \<Rightarrow> if c = CHR ''-'' then - int (digits_val cs) else int (digits_val s))"

definition participant_label :: "info_row \<Rightarrow> string" where
  "participant_label r = ''sub-'' @ zfill 4 (py_str (read_int (info_participant_id r)))"

definition merge_on_participant_id :: "info_row list \<Rightarrow> string list \<Rightarrow> info_row list" where
  "merge_on_participant_id left participants_tsv =
     concat (map (\<lambda>r. map (\<lambda>p. r) (filter (\<lambda>p. p = participant_label r) participants_tsv)) left)"

definition pipeline_subjects :: "string list \<Rightarrow> info_row list \<Rightarrow> string list" where
  "pipeline_subjects participants_tsv df_participants_extra =
     (let first_sessions = filter (\<lambda>r. info_session r = 1) df_participants_extra;
          merged = merge_on_participant_id first_sessions participants_tsv;
          healthy = filter (\<lambda>r. \<not> info_pathological r) merged;
          kept = filter (\<lambda>r. participant_label r \<notin> set [''sub-0388'', ''sub-0766'', ''sub-2289''])
                   healthy
      in map participant_label kept)"

text \<open>
  Modelled from the spec: \<^verbatim>\<open>proc.make_config\<close> of \<^verbatim>\<open>core.preprocessing\<close> is not part
  of the sources. The spec describes its result, the PipelineConfig, as a record
  carrying the source root, the derived output root, the subject, session and run
  selectors and the named per-stage options. The notebook fixes
  \<^verbatim>\<open>
  make_tuab_config = partial(proc.make_config, bids_root=..., session='001', run='001',
      tasks=['rest'], notch_filter_freq=60, analyze_channels=eeg_channels)
  configs = [make_tuab_config(sub, deriv_root=output_dir) for sub in subjects]
  \<close>
  and passes \<^verbatim>\<open>ic_rejection_criterion\<close> for four of the variants.
\<close>

record pipeline_config =
  cfg_subject :: string
  cfg_bids_root :: string
  cfg_deriv_root :: string
  cfg_session :: string
  cfg_run :: string
  cfg_tasks :: "string list"
  cfg_notch_filter_freq :: int
  cfg_analyze_channels :: "string list"
  cfg_ic_rejection_criterion :: "string option"

definition eeg_channels :: "string list" where
  "eeg_channels =
     [''Fp1'', ''Fp2'', ''F3'', ''F4'', ''C3'', ''C4'', ''P3'', ''P4'', ''O1'',
      ''O2'', ''F7'', ''F8'', ''T3'', ''T4'', ''T5'', ''T6'', ''Fz'', ''Cz'', ''Pz'',
      ''A1'', ''A2'']"

definition make_tuab_config :: "string \<Rightarrow> string \<Rightarrow> string \<Rightarrow> string option \<Rightarrow> pipeline_config" where
  "make_tuab_config tuab_bids_root sub output_dir criterion =
     \<lparr>cfg_subject = sub, cfg_bids_root = tuab_bids_root, cfg_deriv_root = output_dir,
      cfg_session = ''001'', cfg_run = ''001'', cfg_tasks = [''rest''],
      cfg_notch_filter_freq = 60, cfg_analyze_channels = eeg_channels,
      cfg_ic_rejection_criterion = criterion\<rparr>"

text \<open>
  Modelled from the spec: the stages that write (\<^verbatim>\<open>proc.save_epochs\<close>,
  \<^verbatim>\<open>proc.save_features\<close>) are not part of the sources. The spec gives the place of a
  task's output: one root per pipeline variant, and below it a hierarchy keyed by
  participant, session and run. The path is the list of these components.
\<close>

definition task_output_path :: "pipeline_config \<Rightarrow> string list" where
  "task_output_path cfg = [cfg_deriv_root cfg, cfg_subject cfg, cfg_session cfg, cfg_run cfg]"

section \<open>An example corpus\<close>

text \<open>
  A corpus for the concrete checks: every path holds a recording of the fifth of
  March 2010 with the same header.
\<close>

definition example_file :: edf_file where
  "example_file =
     \<lparr>edf_bytes = ''0       aaaaaaav M 01-JAN-1950 aaaaaaav Age:34 '',
      get_info = Inr (Some \<lparr>dt_year = 2010, dt_month = 3, dt_day = 5, dt_clock = 0\<rparr>),
      read_raw_edf =
        Inr \<lparr>ch_names = [''EEG FP1-REF'', ''EEG FZ-REF''],
             meas_date = Some \<lparr>dt_year = 2010, dt_month = 3, dt_day = 5, dt_clock = 0\<rparr>\<rparr>\<rparr>"

definition example_corpus :: corpus where
  "example_corpus p = example_file"

text \<open>A library whose calls all succeed, and rename the channels as asked.\<close>

definition example_lib :: mne_lib where
  "example_lib =
     \<lparr>pick_types_eeg = Inr,
      rename_channels = (\<lambda>f r. Inr (r\<lparr>ch_names := map f (ch_names r)\<rparr>)),
      set_standard_montage = Inr,
      write_raw_bids = (\<lambda>r p. Inr ())\<rparr>"

text \<open>A row of the description table for the given path, subject, session and segment.\<close>

definition example_recording :: "string \<Rightarrow> int \<Rightarrow> int \<Rightarrow> int \<Rightarrow> dataset" where
  "example_recording p sub ses seg =
     \<lparr>raw_of = \<lparr>ch_names = [''EEG FP1-REF''], meas_date = None\<rparr>,
      description_of =
        \<lparr>desc_path = p, desc_version = ''V3.0'',
         desc_year = 2010, desc_month = 3, desc_day = 5,
         desc_subject = sub, desc_session = ses, desc_segment = IntV seg,
         desc_age = 34, desc_gender = ''M'',
         desc_train = True, desc_pathological = False,
         desc_subject_orig = ''aaaaaaav''\<rparr>\<rparr>"

section \<open>Properties of the channel-name normalisation\<close>

lemma rename_without_EEG: "\<not> str_in ''EEG'' x \<Longrightarrow> rename_tuh_channels x = x"
  by (simp add: rename_tuh_channels_def rewritten_def)

lemma starts_with_map: "starts_with s p \<Longrightarrow> starts_with (map u s) (map u p)"
  by (induction s p rule: starts_with.induct) auto

lemma str_in_map: "str_in sub s \<Longrightarrow> str_in (map u sub) (map u s)"
proof (induction s)
  case Nil
  then show ?case by simp
next
  case (Cons c cs)
  from Cons.prems have "starts_with (c # cs) sub \<or> str_in sub cs" by simp
  then show ?case
  proof
    assume "starts_with (c # cs) sub"
    then have "starts_with (map u (c # cs)) (map u sub)" by (rule starts_with_map)
    then show ?thesis by simp
  next
    assume "str_in sub cs"
    then have "str_in (map u sub) (map u cs)" by (rule Cons.IH)
    then show ?thesis by simp
  qed
qed

lemma lower_EEG: "str_lower ''EEG'' = ''eeg''"
  by (simp add: str_lower_def char_lower_def)

lemma lower_exclude: "map str_lower exclude = [''loc'', ''roc'', ''ekg1'']"
  by (simp add: exclude_def str_lower_def char_lower_def)

lemma excluded_casing_has_no_EEG:
  assumes "str_lower x \<in> set (map str_lower exclude)"
  shows "\<not> str_in ''EEG'' x"
proof
  assume "str_in ''EEG'' x"
  then have "str_in (str_lower ''EEG'') (str_lower x)"
    unfolding str_lower_def by (rule str_in_map)
  then have e: "str_in ''eeg'' (str_lower x)" by (simp only: lower_EEG)
  from assms have "str_lower x = ''loc'' \<or> str_lower x = ''roc'' \<or> str_lower x = ''ekg1''"
    by (simp only: lower_exclude) simp
  with e show False by auto
qed

lemma starts_with_length: "starts_with s p \<Longrightarrow> length p \<le> length s"
  by (induction s p rule: starts_with.induct) simp_all

lemma str_replace_absent:
  "old \<noteq> [] \<Longrightarrow> \<not> str_in old s \<Longrightarrow> str_replace old new s = s"
  by (induction s) simp_all

lemma length_str_replace_remove:
  "old \<noteq> [] \<Longrightarrow> length (str_replace old [] s) \<le> length s"
proof (induction s rule: length_induct)
  case (1 s)
  show ?case
  proof (cases s)
    case Nil
    with 1 show ?thesis by simp
  next
    case (Cons c cs)
    show ?thesis
    proof (cases "starts_with (c # cs) old")
      case True
      have "length (drop (length old - 1) cs) < length s" using Cons by simp
      with 1 have "length (str_replace old [] (drop (length old - 1) cs))
          \<le> length (drop (length old - 1) cs)" by blast
      with True Cons 1(2) show ?thesis by simp
    next
      case False
      have "length cs < length s" using Cons by simp
      with 1 have "length (str_replace old [] cs) \<le> length cs" by blast
      with False Cons 1(2) show ?thesis by simp
    qed
  qed
qed

lemma length_str_replace_removed:
  "old \<noteq> [] \<Longrightarrow> str_in old s \<Longrightarrow> length (str_replace old [] s) < length s"
proof (induction s)
  case Nil
  then show ?case by simp
next
  case (Cons c cs)
  show ?case
  proof (cases "starts_with (c # cs) old")
    case True
    from Cons.prems(1) have "length (str_replace old [] (drop (length old - 1) cs))
        \<le> length (drop (length old - 1) cs)" by (rule length_str_replace_remove)
    with True Cons.prems(1) show ?thesis by simp
  next
    case False
    with Cons.prems have "str_in old cs" by simp
    with Cons.IH Cons.prems(1) have "length (str_replace old [] cs) < length cs" by simp
    with False Cons.prems(1) show ?thesis by simp
  qed
qed

lemma length_str_replace_same:
  "old \<noteq> [] \<Longrightarrow> length new = length old \<Longrightarrow> length (str_replace old new s) = length s"
proof (induction s rule: length_induct)
  case (1 s)
  show ?case
  proof (cases s)
    case Nil
    with 1 show ?thesis by simp
  next
    case (Cons c cs)
    show ?thesis
    proof (cases "starts_with (c # cs) old")
      case True
      then have k: "length old \<le> Suc (length cs)" by (auto dest: starts_with_length)
      have "length (drop (length old - 1) cs) < length s" using Cons by simp
      with 1 have "length (str_replace old new (drop (length old - 1) cs))
          = length (drop (length old - 1) cs)" by blast
      with True Cons 1(2,3) k show ?thesis by (cases old) simp_all
    next
      case False
      have "length cs < length s" using Cons by simp
      with 1 have "length (str_replace old new cs) = length cs" by blast
      with False Cons 1(2) show ?thesis by simp
    qed
  qed
qed

lemma str_replace_Z: "str_replace ''Z'' ''z'' s = map (\<lambda>c. if c = CHR ''Z'' then CHR ''z'' else c) s"
  by (induction s) simp_all

lemma str_in_char: "str_in [c] s = (c \<in> set s)"
  by (induction s) auto

lemma str_replace_Z_no_Z: "\<not> str_in ''Z'' (str_replace ''Z'' ''z'' s)"
  by (auto simp: str_in_char str_replace_Z)

lemma str_replace_Z_keeps_no_FP:
  "\<not> str_in ''FP'' s \<Longrightarrow> \<not> str_in ''FP'' (str_replace ''Z'' ''z'' s)"
proof -
  let ?g = "\<lambda>c. if c = CHR ''Z'' then CHR ''z'' else c"
  have "str_in ''FP'' (map ?g s) \<Longrightarrow> str_in ''FP'' s"
  proof (induction s)
    case Nil
    then show ?case by simp
  next
    case (Cons c cs)
    from Cons.prems have "starts_with (map ?g (c # cs)) ''FP'' \<or> str_in ''FP'' (map ?g cs)"
      by simp
    then show ?case
    proof
      assume "starts_with (map ?g (c # cs)) ''FP''"
      then have "starts_with (c # cs) ''FP''"
        by (cases cs) (auto split: if_splits)
      then show ?thesis by simp
    next
      assume "str_in ''FP'' (map ?g cs)"
      then have "str_in ''FP'' cs" by (rule Cons.IH)
      then show ?thesis by simp
    qed
  qed
  then show "\<not> str_in ''FP'' s \<Longrightarrow> \<not> str_in ''FP'' (str_replace ''Z'' ''z'' s)"
    by (auto simp: str_replace_Z)
qed

lemma str_replace_FP_first:
  "starts_with (str_replace ''FP'' ''Fp'' s) ''P'' \<Longrightarrow> starts_with s ''P''"
  by (cases s) (auto split: if_splits)

lemma str_replace_FP_no_FP: "\<not> str_in ''FP'' (str_replace ''FP'' ''Fp'' s)"
proof (induction s rule: length_induct)
  case (1 s)
  show ?case
  proof (cases s)
    case Nil
    then show ?thesis by simp
  next
    case (Cons c cs)
    show ?thesis
    proof (cases "starts_with (c # cs) ''FP''")
      case True
      have "length (drop 1 cs) < length s" using Cons by simp
      with 1 have "\<not> str_in ''FP'' (str_replace ''FP'' ''Fp'' (drop 1 cs))" by blast
      with True Cons show ?thesis by simp
    next
      case False
      have "length cs < length s" using Cons by simp
      with 1 have i: "\<not> str_in ''FP'' (str_replace ''FP'' ''Fp'' cs)" by blast
      have "\<not> starts_with (c # str_replace ''FP'' ''Fp'' cs) ''FP''"
      proof
        assume "starts_with (c # str_replace ''FP'' ''Fp'' cs) ''FP''"
        then have "c = CHR ''F''" and "starts_with (str_replace ''FP'' ''Fp'' cs) ''P''"
          by simp_all
        then have "c = CHR ''F''" and "starts_with cs ''P''"
          by (auto dest: str_replace_FP_first)
        with False show False by simp
      qed
      with i False Cons show ?thesis by auto
    qed
  qed
qed

lemma starts_with_prefix: "starts_with s (p @ q) \<Longrightarrow> starts_with s p"
  by (induction s p rule: starts_with.induct) simp_all

lemma str_in_prefix: "str_in (p @ q) s \<Longrightarrow> p @ q \<noteq> [] \<Longrightarrow> str_in p s"
proof (induction s)
  case Nil
  then show ?case by simp
next
  case (Cons c cs)
  from Cons.prems(1) have "starts_with (c # cs) (p @ q) \<or> str_in (p @ q) cs" by simp
  then show ?case
  proof
    assume "starts_with (c # cs) (p @ q)"
    then have "starts_with (c # cs) p" by (rule starts_with_prefix)
    then show ?thesis by simp
  next
    assume "str_in (p @ q) cs"
    with Cons have "str_in p cs" by simp
    then show ?thesis by simp
  qed
qed

lemma str_in_EEG_space: "str_in ''EEG '' s \<Longrightarrow> str_in ''EEG'' s"
  using str_in_prefix [of "''EEG''" "'' ''" s] by simp

lemma rewritten_fixed:
  assumes "str_in ''EEG'' x"
    and "\<not> str_in ''EEG '' (rewritten x)" and "\<not> str_in ''-REF'' (rewritten x)"
  shows "rewritten (rewritten x) = rewritten x"
proof -
  let ?u = "str_replace ''-REF'' [] (str_replace ''EEG '' [] x)"
  let ?y = "rewritten x"
  from assms(1) have y: "?y = str_replace ''Z'' ''z'' (str_replace ''FP'' ''Fp'' ?u)"
    by (simp add: rewritten_def)
  have z: "\<not> str_in ''Z'' ?y" by (subst y) (rule str_replace_Z_no_Z)
  have "\<not> str_in ''FP'' (str_replace ''FP'' ''Fp'' ?u)" by (rule str_replace_FP_no_FP)
  then have "\<not> str_in ''FP'' (str_replace ''Z'' ''z'' (str_replace ''FP'' ''Fp'' ?u))"
    by (rule str_replace_Z_keeps_no_FP)
  then have f: "\<not> str_in ''FP'' ?y" by (simp only: y simp_thms)
  have a: "str_replace ''EEG '' [] ?y = ?y" using assms(2) by (intro str_replace_absent) simp_all
  have b: "str_replace ''-REF'' [] ?y = ?y" using assms(3) by (intro str_replace_absent) simp_all
  have c: "str_replace ''FP'' ''Fp'' ?y = ?y" using f by (intro str_replace_absent) simp_all
  have d: "str_replace ''Z'' ''z'' ?y = ?y" using z by (intro str_replace_absent) simp_all
  have "rewritten ?y = (if str_in ''EEG'' ?y
      then str_replace ''Z'' ''z'' (str_replace ''FP'' ''Fp''
             (str_replace ''-REF'' [] (str_replace ''EEG '' [] ?y)))
      else ?y)"
    by (rule rewritten_def)
  then show ?thesis by (simp only: a b c d if_cancel)
qed

lemma rewritten_shorter:
  assumes "str_in ''EEG'' y" and "str_in ''EEG '' y \<or> str_in ''-REF'' y"
  shows "length (rewritten y) < length y"
proof -
  let ?a = "str_replace ''EEG '' [] y"
  let ?b = "str_replace ''-REF'' [] ?a"
  have l: "length (rewritten y) = length ?b"
    using assms(1) by (simp add: rewritten_def length_str_replace_same)
  have ba: "length ?b \<le> length ?a" by (rule length_str_replace_remove) simp
  have ay: "length ?a \<le> length y" by (rule length_str_replace_remove) simp
  show ?thesis
  proof (cases "str_in ''EEG '' y")
    case True
    then have "length ?a < length y" by (intro length_str_replace_removed) simp_all
    with ba l show ?thesis by simp
  next
    case False
    then have e: "?a = y" by (intro str_replace_absent) simp_all
    from False assms(2) have "str_in ''-REF'' y" by simp
    then have "length (str_replace ''-REF'' [] y) < length y"
      by (intro length_str_replace_removed) simp_all
    with e l show ?thesis by simp
  qed
qed

text \<open>
  C8, as stated, fails. A name from which the rewriting uncovers a new \<open>EEG \<close> prefix is
  rewritten again by the second application. And the exclusion test compares the
  rewritten name with the list as it is written, in upper case: the lower-case \<open>loc\<close>
  inside an EEG label is rewritten.
\<close>

theorem rename_tuh_channels_not_idempotent:
  "rename_tuh_channels ''EEG-REF Z'' = ''EEG z''
   \<and> rename_tuh_channels (rename_tuh_channels ''EEG-REF Z'') = ''z''
   \<and> rename_tuh_channels (rename_tuh_channels ''EEG-REF Z'') \<noteq> rename_tuh_channels ''EEG-REF Z''
   \<and> str_lower ''loc'' \<in> set (map str_lower exclude)
   \<and> rename_tuh_channels ''EEG loc-REF'' = ''loc''
   \<and> rename_tuh_channels ''EEG loc-REF'' \<noteq> ''EEG loc-REF''"
  by (simp add: rename_tuh_channels_def rewritten_def exclude_def str_lower_def char_lower_def)

text \<open>
  C8 (amended): normalising twice equals normalising once exactly for the channel names
  whose normalised form is the name itself, or no longer contains \<open>EEG\<close>, or contains
  neither \<open>EEG \<close> nor \<open>-REF\<close>, or is itself rewritten to a name of the exclusion
  list. A name that is, up to casing, in the exclusion list (LOC, ROC, EKG1) is
  returned unmodified. A name whose rewritten form is in the exclusion list as it is
  written, in upper case, is returned unmodified, although it matches the rewrite
  rules. A name that contains \<open>EEG \<close> and whose rewritten form is not in the list as it
  is written is modified.
\<close>

theorem rename_tuh_channels_idempotent_iff:
  "(rename_tuh_channels (rename_tuh_channels x) = rename_tuh_channels x)
     = (\<not> (rename_tuh_channels x \<noteq> x
            \<and> str_in ''EEG'' (rename_tuh_channels x)
            \<and> (str_in ''EEG '' (rename_tuh_channels x) \<or> str_in ''-REF'' (rename_tuh_channels x))
            \<and> rewritten (rename_tuh_channels x) \<notin> set exclude))
   \<and> (str_lower x \<in> set (map str_lower exclude) \<longrightarrow> rename_tuh_channels x = x)
   \<and> (rewritten x \<in> set exclude \<longrightarrow> rename_tuh_channels x = x)
   \<and> (str_in ''EEG '' x \<and> rewritten x \<notin> set exclude \<longrightarrow> rename_tuh_channels x \<noteq> x)"
proof (intro conjI impI)
  let ?y = "rename_tuh_channels x"
  show "(rename_tuh_channels ?y = ?y)
     = (\<not> (?y \<noteq> x \<and> str_in ''EEG'' ?y \<and> (str_in ''EEG '' ?y \<or> str_in ''-REF'' ?y)
            \<and> rewritten ?y \<notin> set exclude))"
  proof (cases "?y = x")
    case True
    then show ?thesis by simp
  next
    case neq: False
    then have ex: "rewritten x \<notin> set exclude" and y: "?y = rewritten x"
      by (auto simp: rename_tuh_channels_def Let_def split: if_splits)
    from neq y have eeg: "str_in ''EEG'' x" by (auto simp: rewritten_def split: if_splits)
    show ?thesis
    proof (cases "str_in ''EEG'' ?y")
      case False
      then have "rename_tuh_channels ?y = ?y" by (rule rename_without_EEG)
      with False show ?thesis by simp
    next
      case has: True
      show ?thesis
      proof (cases "rewritten ?y \<in> set exclude")
        case True
        then have "rename_tuh_channels ?y = ?y" by (simp add: rename_tuh_channels_def)
        with True show ?thesis by simp
      next
        case out: False
        then have r: "rename_tuh_channels ?y = rewritten ?y"
          by (simp add: rename_tuh_channels_def)
        show ?thesis
        proof (cases "str_in ''EEG '' ?y \<or> str_in ''-REF'' ?y")
          case True
          with has have "length (rewritten ?y) < length ?y" by (rule rewritten_shorter)
          then have "rewritten ?y \<noteq> ?y" by auto
          with r neq has out True show ?thesis by simp
        next
          case False
          then have "\<not> str_in ''EEG '' (rewritten x)" "\<not> str_in ''-REF'' (rewritten x)"
            by (simp_all add: y)
          with eeg have "rewritten (rewritten x) = rewritten x" by (rule rewritten_fixed)
          then have "rewritten ?y = ?y" by (simp only: y)
          with r False show ?thesis by simp
        qed
      qed
    qed
  qed
next
  assume "str_lower x \<in> set (map str_lower exclude)"
  then have "\<not> str_in ''EEG'' x" by (rule excluded_casing_has_no_EEG)
  then show "rename_tuh_channels x = x" by (rule rename_without_EEG)
next
  assume "rewritten x \<in> set exclude"
  then show "rename_tuh_channels x = x" by (simp add: rename_tuh_channels_def)
next
  assume a: "str_in ''EEG '' x \<and> rewritten x \<notin> set exclude"
  then have "str_in ''EEG'' x" by (auto dest: str_in_EEG_space)
  with a have "length (rewritten x) < length x" by (intro rewritten_shorter) simp_all
  moreover from a have "rename_tuh_channels x = rewritten x"
    by (simp add: rename_tuh_channels_def)
  ultimately show "rename_tuh_channels x \<noteq> x" by auto
qed

theorem rename_tuh_channels_idempotent_iff_witness:
  "rename_tuh_channels ''EEG FP1-REF'' = ''Fp1''
   \<and> rename_tuh_channels (rename_tuh_channels ''EEG FP1-REF'') = ''Fp1''
   \<and> rename_tuh_channels ''EEGZ'' = ''EEGz''
   \<and> rename_tuh_channels (rename_tuh_channels ''EEGZ'') = ''EEGz''
   \<and> str_lower ''eKg1'' \<in> set (map str_lower exclude)
   \<and> rename_tuh_channels ''eKg1'' = ''eKg1''
   \<and> rewritten ''EEG LOC-REF'' \<in> set exclude
   \<and> rename_tuh_channels ''EEG LOC-REF'' = ''EEG LOC-REF''
   \<and> str_in ''EEG '' ''EEG loc-REF'' \<and> rewritten ''EEG loc-REF'' \<notin> set exclude
   \<and> rename_tuh_channels ''EEG loc-REF'' \<noteq> ''EEG loc-REF''"
proof -
  have a: "rename_tuh_channels ''EEG FP1-REF'' = ''Fp1''"
    by (simp add: rename_tuh_channels_def rewritten_def exclude_def)
  have b: "\<not> str_in ''EEG'' (rename_tuh_channels ''EEG FP1-REF'')"
    by (simp add: a)
  have a': "rename_tuh_channels ''EEGZ'' = ''EEGz''"
    by (simp add: rename_tuh_channels_def rewritten_def exclude_def)
  have b': "\<not> (str_in ''EEG '' (rename_tuh_channels ''EEGZ'')
       \<or> str_in ''-REF'' (rename_tuh_channels ''EEGZ''))"
    by (simp add: a')
  have c: "str_lower ''eKg1'' \<in> set (map str_lower exclude)"
    by (simp add: lower_exclude) (simp add: str_lower_def char_lower_def)
  have d: "rewritten ''EEG LOC-REF'' \<in> set exclude"
    by (simp add: rewritten_def exclude_def)
  have h: "str_in ''EEG '' ''EEG loc-REF''" by simp
  have i: "rewritten ''EEG loc-REF'' \<notin> set exclude"
    by (simp add: rewritten_def exclude_def)
  from rename_tuh_channels_idempotent_iff [of "''EEG FP1-REF''"] b
  have e: "rename_tuh_channels (rename_tuh_channels ''EEG FP1-REF'') = ''Fp1''"
    by (simp add: a)
  from rename_tuh_channels_idempotent_iff [of "''EEGZ''"] b'
  have e': "rename_tuh_channels (rename_tuh_channels ''EEGZ'') = ''EEGz''"
    by (simp add: a')
  from rename_tuh_channels_idempotent_iff [of "''eKg1''"] c
  have f: "rename_tuh_channels ''eKg1'' = ''eKg1''" by blast
  from rename_tuh_channels_idempotent_iff [of "''EEG LOC-REF''"] d
  have g: "rename_tuh_channels ''EEG LOC-REF'' = ''EEG LOC-REF''" by blast
  from rename_tuh_channels_idempotent_iff [of "''EEG loc-REF''"] h i
  have j: "rename_tuh_channels ''EEG loc-REF'' \<noteq> ''EEG loc-REF''" by blast
  from a a' c d e e' f g h i j show ?thesis by blast
qed

section \<open>Properties of the age and sex extraction\<close>


























text \<open>
  Two places where the scan for the sex departs from a count of the letters. The
  character class \<^verbatim>\<open>[F|M]\<close> also accepts the bar: a bar between two whitespace
  characters is found as a match. And a match consumes both whitespace characters:
  of two letters around one whitespace character only the first is found.
\<close>

lemma parse_age_and_gender_bar_and_shared_space:
  "parse_age_and_gender_from_edf_header (''0       '' @ '' | '') = Inr (- 1, ''|'')
   \<and> parse_age_and_gender_from_edf_header (''0       '' @ '' | F '') = Inr (- 1, ''|'')
   \<and> fm_tokens (patient_field (''0       '' @ '' F M '')) = ''FM''
   \<and> parse_age_and_gender_from_edf_header (''0       '' @ '' F M '') = Inr (- 1, ''F'')"
  by (simp add: parse_age_and_gender_from_edf_header_def patient_field_def read_edf_header_def
      decode_ascii_def is_ascii_def age_of_matches_def gender_of_matches_def is_space_def)



section \<open>Properties of the descriptor extraction\<close>

lemma parse_descriptions_Inr_iff:
  "parse_descriptions fs ps = Inr ds \<longleftrightarrow>
     list_all (\<lambda>p. \<exists>d. parse_description_from_file_path fs p = Inr d) ps
     \<and> ds = map (\<lambda>p. projr (parse_description_from_file_path fs p)) ps"
proof (induction ps arbitrary: ds)
  case Nil
  then show ?case by auto
next
  case (Cons p ps)
  show ?case
  proof (cases "parse_description_from_file_path fs p")
    case (Inl e)
    then show ?thesis by simp
  next
    case (Inr d)
    show ?thesis
    proof (cases "parse_descriptions fs ps")
      case (Inl e)
      with Cons.IH [of "map (\<lambda>p. projr (parse_description_from_file_path fs p)) ps"] Inr
      show ?thesis by auto
    next
      case r: (Inr ds')
      with Cons.IH [of ds'] Inr show ?thesis by auto
    qed
  qed
qed

lemma parse_descriptions_fails:
  assumes "p \<in> set ps" "parse_description_from_file_path fs p = Inl e"
  shows "\<exists>e'. parse_descriptions fs ps = Inl e'"
proof (cases "parse_descriptions fs ps")
  case (Inl e')
  then show ?thesis by blast
next
  case (Inr ds)
  then have "list_all (\<lambda>p. \<exists>d. parse_description_from_file_path fs p = Inr d) ps"
    by (simp add: parse_descriptions_Inr_iff)
  with assms show ?thesis by (auto simp: list_all_iff)
qed

lemma unpack_fails:
  assumes "length (str_split (CHR ''_'') (fname_of p)) \<noteq> 3"
    and "get_info (fs p) = Inr date"
  shows "parse_description_from_file_path fs p =
           Inl (ValueError ''wrong number of values to unpack (expected 3)'')"
  using assms
  by (auto simp: parse_description_from_file_path_def split: list.splits)

lemma parse_malformed_fails:
  assumes "length (str_split (CHR ''_'') (fname_of p)) \<noteq> 3"
  shows "\<exists>e. parse_description_from_file_path fs p = Inl e"
proof (cases "get_info (fs p)")
  case (Inl e)
  then show ?thesis by (simp add: parse_description_from_file_path_def)
next
  case (Inr date)
  with assms show ?thesis by (simp add: unpack_fails)
qed

text \<open>
  C7, as stated, fails: the scan has no handler around the extraction, so one
  malformed file name ends it and no index is built, although the other file parses.
\<close>

theorem malformed_filename_ends_scan:
  "map_sum id path (parse_description_from_file_path example_corpus ''a/a_s001_t000.edf'')
     = Inr ''a/a_s001_t000.edf''
   \<and> create_chronological_description example_corpus [''a/bad.edf'', ''a/a_s001_t000.edf'']
     = Inl (ValueError ''wrong number of values to unpack (expected 3)'')"
  by code_simp

text \<open>
  C7 (amended): for every raw file whose file-name stem does not split on \<open>_\<close> into
  exactly three parts, descriptor extraction raises (the \<^verbatim>\<open>ValueError\<close> of the
  unpacking, once the header probe has returned), and the failure is not skipped: it
  ends the scan of every corpus that contains the file, which returns no index.
\<close>

theorem malformed_filename_aborts_scan:
  assumes "length (str_split (CHR ''_'') (fname_of p)) \<noteq> 3"
  shows "(\<exists>e. parse_description_from_file_path fs p = Inl e)
       \<and> (\<forall>date. get_info (fs p) = Inr date \<longrightarrow>
            parse_description_from_file_path fs p =
              Inl (ValueError ''wrong number of values to unpack (expected 3)''))
       \<and> (p \<in> set file_paths \<longrightarrow> (\<exists>e. create_chronological_description fs file_paths = Inl e))"
proof (intro conjI allI impI)
  show "\<exists>e. parse_description_from_file_path fs p = Inl e"
    using assms by (rule parse_malformed_fails)
next
  fix date assume "get_info (fs p) = Inr date"
  with assms show "parse_description_from_file_path fs p =
              Inl (ValueError ''wrong number of values to unpack (expected 3)'')"
    by (rule unpack_fails)
next
  assume "p \<in> set file_paths"
  moreover obtain e where "parse_description_from_file_path fs p = Inl e"
    using parse_malformed_fails [OF assms] by blast
  ultimately obtain e' where "parse_descriptions fs file_paths = Inl e'"
    using parse_descriptions_fails by blast
  then show "\<exists>e. create_chronological_description fs file_paths = Inl e"
    by (simp add: create_chronological_description_def)
qed


theorem malformed_filename_aborts_scan_witness:
  "length (str_split (CHR ''_'') (fname_of ''a/bad.edf'')) \<noteq> 3
   \<and> (\<exists>e. create_chronological_description example_corpus
             [''a/a_s001_t000.edf'', ''a/bad.edf''] = Inl e)"
proof -
  have l: "length (str_split (CHR ''_'') (fname_of ''a/bad.edf'')) \<noteq> 3"
    by (simp add: fname_of_def)
  have "''a/bad.edf'' \<in> set [''a/a_s001_t000.edf'', ''a/bad.edf'']" by simp
  with malformed_filename_aborts_scan [OF l, of example_corpus]
  have "\<exists>e. create_chronological_description example_corpus
             [''a/a_s001_t000.edf'', ''a/bad.edf''] = Inl e" by blast
  with l show ?thesis by blast
qed

section \<open>Properties of the chronological index\<close>

lemma filter_distinct_key:
  "distinct (map f xs) \<Longrightarrow> k \<in> set xs \<Longrightarrow> filter (\<lambda>x. f k = f x) xs = [k]"
proof (induction xs)
  case Nil
  then show ?case by simp
next
  case (Cons x xs)
  show ?case
  proof (cases "k = x")
    case True
    with Cons.prems have "filter (\<lambda>y. f k = f y) xs = []"
      by (auto simp: filter_empty_conv)
    with True show ?thesis by simp
  next
    case False
    with Cons.prems have kx: "k \<in> set xs" by simp
    from Cons.prems(1) have "f x \<notin> f ` set xs" by simp
    with kx have "f k \<noteq> f x" by (metis imageI)
    note kx this
    with Cons show ?thesis by simp
  qed
qed

lemma sort_key_permutation_distinct:
  assumes "distinct (map f xs)" "mset ys = mset xs"
  shows "sort_key f ys = sort_key f xs"
proof (rule properties_for_sort_key)
  show "mset (sort_key f xs) = mset ys" using assms by simp
next
  show "sorted (map f (sort_key f xs))" by simp
next
  fix k assume "k \<in> set (sort_key f xs)"
  then have kx: "k \<in> set xs" by simp
  then have ky: "k \<in> set ys" using assms(2) by (metis mset_eq_setD)
  have "mset (map f ys) = mset (map f xs)" using assms(2) by simp
  then have dy: "distinct (map f ys)" using assms(1) by (metis mset_eq_imp_distinct_iff)
  have "mset (map f (sort_key f xs)) = mset (map f xs)" by simp
  then have ds: "distinct (map f (sort_key f xs))"
    using assms(1) by (metis mset_eq_imp_distinct_iff)
  from kx have ks: "k \<in> set (sort_key f xs)" by simp
  show "filter (\<lambda>x. f k = f x) (sort_key f xs) = filter (\<lambda>x. f k = f x) ys"
    by (simp only: filter_distinct_key [OF ds ks] filter_distinct_key [OF dy ky])
qed


text \<open>
  C6, as stated, fails: two descriptors with the same sort key keep the order in which
  the files were listed, whatever their file names; listing them the other way round
  gives the other index.
\<close>

theorem chronological_order_follows_input_order:
  "map_sum id (map path)
     (create_chronological_description example_corpus [''a/b_s02_t000.edf'', ''a/b_s002_t000.edf''])
     = Inr [''a/b_s02_t000.edf'', ''a/b_s002_t000.edf'']
   \<and> map_sum id (map path)
     (create_chronological_description example_corpus [''a/b_s002_t000.edf'', ''a/b_s02_t000.edf''])
     = Inr [''a/b_s002_t000.edf'', ''a/b_s02_t000.edf'']
   \<and> ''a/b_s002_t000.edf'' < ''a/b_s02_t000.edf''"
  by code_simp

text \<open>
  C6 (amended): the index is the stable sort of the descriptors by (subject, session,
  segment, year, month, day): it is sorted by this key, it holds exactly the descriptors
  extracted, and descriptors with equal keys keep the order in which they were
  produced. When the keys are pairwise distinct the index is the same for every order
  in which the files are listed.
\<close>

theorem chronological_description_stable_sort:
  assumes "create_chronological_description fs file_paths = Inr index"
  shows "\<exists>ds. parse_descriptions fs file_paths = Inr ds
     \<and> sorted (map sort_columns index)
     \<and> mset index = mset ds
     \<and> (\<forall>k. filter (\<lambda>d. sort_columns d = k) index = filter (\<lambda>d. sort_columns d = k) ds)
     \<and> (\<forall>file_paths'. mset file_paths' = mset file_paths \<and> distinct (map sort_columns index)
            \<longrightarrow> create_chronological_description fs file_paths' = Inr index)"
proof -
  from assms obtain ds where ds: "parse_descriptions fs file_paths = Inr ds"
    and ne: "ds \<noteq> []" and index: "index = sort_values ds"
    by (auto simp: create_chronological_description_def split: sum.splits if_splits)
  have s: "sorted (map sort_columns index)" by (simp add: index sort_values_def)
  have m: "mset index = mset ds" by (simp add: index sort_values_def)
  have st: "filter (\<lambda>d. sort_columns d = k) index = filter (\<lambda>d. sort_columns d = k) ds" for k
    unfolding index sort_values_def by (rule sort_key_stable)
  have perm: "create_chronological_description fs file_paths' = Inr index"
    if p: "mset file_paths' = mset file_paths" and d: "distinct (map sort_columns index)"
    for file_paths'
  proof -
    let ?g = "\<lambda>p. projr (parse_description_from_file_path fs p)"
    from ds have ok: "list_all (\<lambda>p. \<exists>d. parse_description_from_file_path fs p = Inr d) file_paths"
      and dsm: "ds = map ?g file_paths"
      by (simp_all add: parse_descriptions_Inr_iff)
    from p have "set file_paths' = set file_paths" by (rule mset_eq_setD)
    with ok have "list_all (\<lambda>p. \<exists>d. parse_description_from_file_path fs p = Inr d) file_paths'"
      by (simp add: list_all_iff)
    then have ds': "parse_descriptions fs file_paths' = Inr (map ?g file_paths')"
      by (simp add: parse_descriptions_Inr_iff)
    from p have m': "mset (map ?g file_paths') = mset ds" by (simp add: dsm)
    with ne have ne': "map ?g file_paths' \<noteq> []" by auto
    from m have "mset (map sort_columns index) = mset (map sort_columns ds)" by simp
    with d have dd: "distinct (map sort_columns ds)" by (metis mset_eq_imp_distinct_iff)
    from dd m' have "sort_key sort_columns (map ?g file_paths') = sort_key sort_columns ds"
      by (rule sort_key_permutation_distinct)
    with ds' ne' show ?thesis
      by (simp add: create_chronological_description_def index sort_values_def)
  qed
  from ds s m st perm show ?thesis by blast
qed

lemma example_index:
  "create_chronological_description example_corpus [''a/b_s002_t000.edf'', ''a/a_s001_t000.edf'']
   = Inr [\<lparr>path = ''a/a_s001_t000.edf'', version = ''V3.0'', year = 2010, month = 3, day = 5,
            subject = ''a'', session = 1, segment = 0\<rparr>,
          \<lparr>path = ''a/b_s002_t000.edf'', version = ''V3.0'', year = 2010, month = 3, day = 5,
            subject = ''b'', session = 2, segment = 0\<rparr>]"
  by code_simp

theorem chronological_description_stable_sort_witness:
  "create_chronological_description example_corpus [''a/b_s002_t000.edf'', ''a/a_s001_t000.edf'']
   = Inr [\<lparr>path = ''a/a_s001_t000.edf'', version = ''V3.0'', year = 2010, month = 3, day = 5,
            subject = ''a'', session = 1, segment = 0\<rparr>,
          \<lparr>path = ''a/b_s002_t000.edf'', version = ''V3.0'', year = 2010, month = 3, day = 5,
            subject = ''b'', session = 2, segment = 0\<rparr>]
   \<and> create_chronological_description example_corpus [''a/a_s001_t000.edf'', ''a/b_s002_t000.edf'']
   = Inr [\<lparr>path = ''a/a_s001_t000.edf'', version = ''V3.0'', year = 2010, month = 3, day = 5,
            subject = ''a'', session = 1, segment = 0\<rparr>,
          \<lparr>path = ''a/b_s002_t000.edf'', version = ''V3.0'', year = 2010, month = 3, day = 5,
            subject = ''b'', session = 2, segment = 0\<rparr>]"
proof -
  let ?index = "[\<lparr>path = ''a/a_s001_t000.edf'', version = ''V3.0'', year = 2010, month = 3, day = 5,
            subject = ''a'', session = 1, segment = 0\<rparr>,
          \<lparr>path = ''a/b_s002_t000.edf'', version = ''V3.0'', year = 2010, month = 3, day = 5,
            subject = ''b'', session = 2, segment = 0\<rparr>]"
  have d: "distinct (map sort_columns ?index)" by (simp add: sort_columns_def)
  have p: "mset [''a/a_s001_t000.edf'', ''a/b_s002_t000.edf'']
         = mset [''a/b_s002_t000.edf'', ''a/a_s001_t000.edf'']" by simp
  from chronological_description_stable_sort [OF example_index] p d
  have "create_chronological_description example_corpus [''a/a_s001_t000.edf'', ''a/b_s002_t000.edf'']
        = Inr ?index" by blast
  with example_index show ?thesis by blast
qed

section \<open>Properties of the subset restriction\<close>

lemma nths_subseq_from:
  "sorted_wrt (<) js \<Longrightarrow> \<forall>j \<in> set js. n \<le> j \<and> j < length xs
     \<Longrightarrow> subseq (map (nth xs) js) (drop n xs)"
proof (induction js arbitrary: n)
  case Nil
  then show ?case by simp
next
  case (Cons j js)
  from Cons.prems have j: "n \<le> j" "j < length xs" by simp_all
  from Cons.prems have "sorted_wrt (<) js" "\<forall>i \<in> set js. Suc j \<le> i \<and> i < length xs"
    by auto
  then have "subseq (map (nth xs) js) (drop (Suc j) xs)" by (rule Cons.IH)
  then have "subseq (xs ! j # map (nth xs) js) (xs ! j # drop (Suc j) xs)"
    by (rule subseq_Cons2)
  with j(2) have "subseq (map (nth xs) (j # js)) (drop j xs)"
    by (simp add: Cons_nth_drop_Suc)
  then have "subseq (map (nth xs) (j # js)) (take (j - n) (drop n xs) @ drop j xs)"
    by (rule list_emb_append2)
  moreover from j(1) have "take (j - n) (drop n xs) @ drop j xs = drop n xs"
    by (metis append_take_drop_id drop_drop le_add_diff_inverse2)
  ultimately show ?case by simp
qed

lemma ascending_labels_subseq:
  assumes "sorted_wrt (<) ids" "list_all (is_label xs) ids"
  shows "subseq (map (\<lambda>i. xs ! nat i) ids) xs"
proof -
  from assms(2) have r: "\<forall>i \<in> set ids. 0 \<le> i \<and> i < int (length xs)"
    by (simp add: list_all_iff is_label_def)
  with assms(1) have "sorted_wrt (<) (map nat ids)"
    by (induction ids) auto
  moreover from r have "\<forall>j \<in> set (map nat ids). 0 \<le> j \<and> j < length xs" by auto
  ultimately have "subseq (map (nth xs) (map nat ids)) (drop 0 xs)"
    by (rule nths_subseq_from)
  then show ?thesis by (simp add: comp_def)
qed

lemma create_dataset_description:
  "create_dataset fs d = Inr x \<Longrightarrow> ds_description x = d"
  by (auto simp: create_dataset_def split: sum.splits option.splits prod.splits)

lemma create_datasets_descriptions:
  "create_datasets fs ds = Inr xs \<Longrightarrow> map ds_description xs = ds"
proof (induction ds arbitrary: xs)
  case Nil
  then show ?case by simp
next
  case (Cons d ds)
  then show ?case
    by (auto split: sum.splits dest: create_dataset_description)
qed

text \<open>
  C5, as stated, fails: the subset is taken in the order of \<^verbatim>\<open>recording_ids\<close>, so
  the ids 1, 0 put the later recording first.
\<close>

theorem recording_ids_overwrite_order:
  "map_sum id (map path)
     (create_chronological_description example_corpus [''a/a_s001_t000.edf'', ''a/a_s002_t000.edf''])
     = Inr [''a/a_s001_t000.edf'', ''a/a_s002_t000.edf'']
   \<and> map_sum id (map (\<lambda>x. path (ds_description x)))
     (TUH_init example_corpus [''a/a_s001_t000.edf'', ''a/a_s002_t000.edf''] (IdList [1, 0]))
     = Inr [''a/a_s002_t000.edf'', ''a/a_s001_t000.edf'']"
  by code_simp

lemma create_datasets_nonempty:
  "create_datasets fs ds = Inr xs \<Longrightarrow> ds \<noteq> [] \<Longrightarrow> xs \<noteq> []"
  by (cases ds) (auto split: sum.splits)

text \<open>
  C5 (amended): the restriction to \<^verbatim>\<open>recording_ids\<close> is applied to the sorted index
  and before any file is loaded: the datasets are created from the selected
  descriptors only. For every list of valid ids the datasets are the index entries at
  these ids, in the order of the ids. If the ids are strictly ascending, this is a
  subsequence of the index, so the relative chronological order of the retained
  recordings is unchanged. The empty list selects nothing, and the constructor raises
  \<^verbatim>\<open>AssertionError\<close>.
\<close>

theorem recording_ids_select_in_given_order:
  assumes "create_chronological_description fs file_paths = Inr index"
    and "list_all (is_label index) ids"
  shows "restrict_to_recording_ids (IdList ids) index = Inr (map (\<lambda>i. index ! nat i) ids)
     \<and> (distinct ids \<and> ids \<noteq> []
          \<longrightarrow> TUH_init fs file_paths (IdList ids)
                = create_datasets fs (map (\<lambda>i. index ! nat i) ids))
     \<and> (\<forall>dss. TUH_init fs file_paths (IdList ids) = Inr dss
           \<longrightarrow> dss \<noteq> [] \<and> map ds_description dss = map (\<lambda>i. index ! nat i) ids)
     \<and> (sorted_wrt (<) ids \<longrightarrow> subseq (map (\<lambda>i. index ! nat i) ids) index)
     \<and> (ids = [] \<longrightarrow> TUH_init fs file_paths (IdList ids)
                = Inl (AssertionError ''datasets should not be an empty iterable''))"
proof -
  let ?sel = "map (\<lambda>i. index ! nat i) ids"
  from assms(2) have r: "restrict_to_recording_ids (IdList ids) index = Inr ?sel"
    by (simp add: restrict_to_recording_ids_def)
  have t: "TUH_init fs file_paths (IdList ids) = create_datasets fs ?sel"
    if "distinct ids" "ids \<noteq> []"
  proof (cases "create_datasets fs ?sel")
    case (Inl e)
    with assms(1) r that show ?thesis by (simp add: TUH_init_def)
  next
    case (Inr xs)
    from Inr that(2) have "xs \<noteq> []" by (auto dest: create_datasets_nonempty)
    with assms(1) r that Inr show ?thesis
      by (simp add: TUH_init_def concat_dataset_init_def)
  qed
  have d: "dss \<noteq> [] \<and> map ds_description dss = ?sel"
    if "TUH_init fs file_paths (IdList ids) = Inr dss" for dss
  proof -
    from that assms(1) r have "create_datasets fs ?sel = Inr dss \<and> dss \<noteq> []"
      by (auto simp: TUH_init_def concat_dataset_init_def split: sum.splits if_splits)
    then show ?thesis by (auto dest: create_datasets_descriptions)
  qed
  have s: "subseq ?sel index" if "sorted_wrt (<) ids"
    using that assms(2) by (rule ascending_labels_subseq)
  have e: "TUH_init fs file_paths (IdList ids)
      = Inl (AssertionError ''datasets should not be an empty iterable'')" if "ids = []"
    using that assms(1) r by (simp add: TUH_init_def concat_dataset_init_def)
  from r t d s e show ?thesis by blast
qed

theorem recording_ids_select_in_given_order_witness:
  "sorted_wrt (<) [0, 2 :: int]
   \<and> map_sum id (map path)
       (create_chronological_description example_corpus
          [''a/a_s003_t000.edf'', ''a/a_s002_t000.edf'', ''a/a_s001_t000.edf''])
     = Inr [''a/a_s001_t000.edf'', ''a/a_s002_t000.edf'', ''a/a_s003_t000.edf'']
   \<and> map_sum id (map (\<lambda>x. path (ds_description x)))
       (TUH_init example_corpus
          [''a/a_s003_t000.edf'', ''a/a_s002_t000.edf'', ''a/a_s001_t000.edf''] (IdList [0, 2]))
     = Inr [''a/a_s001_t000.edf'', ''a/a_s003_t000.edf'']
   \<and> map_sum id (map (\<lambda>x. path (ds_description x)))
       (TUH_init example_corpus
          [''a/a_s003_t000.edf'', ''a/a_s002_t000.edf'', ''a/a_s001_t000.edf''] (IdList [2, 0]))
     = Inr [''a/a_s003_t000.edf'', ''a/a_s001_t000.edf'']"
proof -
  let ?paths = "[''a/a_s003_t000.edf'', ''a/a_s002_t000.edf'', ''a/a_s001_t000.edf'']"
  have a: "map_sum id (map path) (create_chronological_description example_corpus ?paths)
      = Inr [''a/a_s001_t000.edf'', ''a/a_s002_t000.edf'', ''a/a_s003_t000.edf'']"
    by code_simp
  then obtain index where i: "create_chronological_description example_corpus ?paths = Inr index"
    and p: "map path index = [''a/a_s001_t000.edf'', ''a/a_s002_t000.edf'', ''a/a_s003_t000.edf'']"
    by (cases "create_chronological_description example_corpus ?paths") auto
  from p have len: "length index = 3" by (metis length_map length_Cons list.size(3) numeral_3_eq_3)
  have s: "sorted_wrt (<) [0, 2 :: int]" by simp
  from len have l: "list_all (is_label index) [0, 2]" and l': "list_all (is_label index) [2, 0]"
    by (simp_all add: is_label_def)
  from len have p0: "path (index ! 0) = map path index ! 0"
    and p2: "path (index ! 2) = map path index ! 2" by simp_all
  have "map_sum id (\<lambda>x. ()) (TUH_init example_corpus ?paths (IdList [0, 2])) = Inr ()"
    by code_simp
  then obtain dss where d: "TUH_init example_corpus ?paths (IdList [0, 2]) = Inr dss"
    by (cases "TUH_init example_corpus ?paths (IdList [0, 2])") auto
  from recording_ids_select_in_given_order [OF i l] d
  have "map ds_description dss = map (\<lambda>i. index ! nat i) [0, 2]" by blast
  then have "map path (map ds_description dss) = [path (index ! 0), path (index ! 2)]"
    by simp
  with p0 p2 have r1: "map (\<lambda>x. path (ds_description x)) dss
      = [''a/a_s001_t000.edf'', ''a/a_s003_t000.edf'']"
    by (simp add: p comp_def)
  have "map_sum id (\<lambda>x. ()) (TUH_init example_corpus ?paths (IdList [2, 0])) = Inr ()"
    by code_simp
  then obtain dss' where d': "TUH_init example_corpus ?paths (IdList [2, 0]) = Inr dss'"
    by (cases "TUH_init example_corpus ?paths (IdList [2, 0])") auto
  from recording_ids_select_in_given_order [OF i l'] d'
  have "map ds_description dss' = map (\<lambda>i. index ! nat i) [2, 0]" by blast
  then have "map path (map ds_description dss') = [path (index ! 2), path (index ! 0)]"
    by simp
  with p0 p2 have r2: "map (\<lambda>x. path (ds_description x)) dss'
      = [''a/a_s003_t000.edf'', ''a/a_s001_t000.edf'']"
    by (simp add: p comp_def)
  from d d' a s r1 r2 show ?thesis by simp
qed

section \<open>Properties of the session reindexing\<close>

lemma length_scatter: "length (scatter ps vs column) = length column"
  by (induction ps vs column rule: scatter.induct) simp_all

lemma scatter_nth_other: "i \<notin> set ps \<Longrightarrow> scatter ps vs column ! i = column ! i"
  by (induction ps vs column rule: scatter.induct) auto

lemma scatter_map_nth:
  "distinct ps \<Longrightarrow> length vs = length ps \<Longrightarrow> \<forall>p \<in> set ps. p < length column
     \<Longrightarrow> map (nth (scatter ps vs column)) ps = vs"
proof (induction ps vs column rule: scatter.induct)
  case (1 p ps v vs column)
  from "1.prems" have "map (nth (scatter ps vs (column[p := v]))) ps = vs"
    by (intro "1.IH") auto
  moreover from "1.prems" have "scatter ps vs (column[p := v]) ! p = v"
    by (simp add: scatter_nth_other)
  ultimately show ?case by simp
qed auto

lemma scatter_map_nth_disjoint:
  assumes "set ps \<inter> set qs = {}"
  shows "map (nth (scatter ps vs column)) qs = map (nth column) qs"
proof (rule map_cong [OF refl])
  fix x assume "x \<in> set qs"
  with assms have "x \<notin> set ps" by blast
  then show "scatter ps vs column ! x = column ! x" by (rule scatter_nth_other)
qed

lemma distinct_group_positions: "distinct (group_positions keys k)"
  by (simp add: group_positions_def)

lemma group_positions_bound: "p \<in> set (group_positions keys k) \<Longrightarrow> p < length keys"
  by (simp add: group_positions_def)

lemma group_positions_disjoint:
  "k \<noteq> k' \<Longrightarrow> set (group_positions keys k) \<inter> set (group_positions keys k') = {}"
  by (auto simp: group_positions_def)

lemma length_arange_plus_one: "length (arange_plus_one n) = n"
  by (simp add: arange_plus_one_def)

lemma length_transform_group:
  "length (transform_group subjects column k) = length column"
  by (simp add: transform_group_def Let_def length_scatter)

lemma length_foldl_transform_group:
  "length (foldl (transform_group subjects) column ks) = length column"
  by (induction ks arbitrary: column) (simp_all add: length_transform_group)

lemma transform_group_own:
  assumes "length column = length subjects"
  shows "map (nth (transform_group subjects column k)) (group_positions subjects k)
           = arange_plus_one (length (group_positions subjects k))"
  unfolding transform_group_def Let_def
  using assms
  by (intro scatter_map_nth)
     (auto simp: distinct_group_positions length_arange_plus_one dest: group_positions_bound)

lemma transform_group_other:
  "k \<noteq> s \<Longrightarrow> map (nth (transform_group subjects column k)) (group_positions subjects s)
           = map (nth column) (group_positions subjects s)"
  unfolding transform_group_def Let_def
  by (rule scatter_map_nth_disjoint) (rule group_positions_disjoint)

lemma foldl_transform_group_other:
  "s \<notin> set ks \<Longrightarrow>
     map (nth (foldl (transform_group subjects) column ks)) (group_positions subjects s)
       = map (nth column) (group_positions subjects s)"
proof (induction ks arbitrary: column)
  case Nil
  then show ?case by simp
next
  case (Cons k ks)
  then have "k \<noteq> s" "s \<notin> set ks" by auto
  with Cons.IH [of "transform_group subjects column k"] show ?case
    by (simp add: transform_group_other)
qed

lemma foldl_transform_group_own:
  "s \<in> set ks \<Longrightarrow> distinct ks \<Longrightarrow> length column = length subjects \<Longrightarrow>
     map (nth (foldl (transform_group subjects) column ks)) (group_positions subjects s)
       = arange_plus_one (length (group_positions subjects s))"
proof (induction ks arbitrary: column)
  case Nil
  then show ?case by simp
next
  case (Cons k ks)
  show ?case
  proof (cases "s \<in> set ks")
    case True
    with Cons.prems Cons.IH [of "transform_group subjects column k"] show ?thesis
      by (simp add: length_transform_group)
  next
    case False
    with Cons.prems have "s = k" by simp
    with False Cons.prems show ?thesis
      by (simp add: foldl_transform_group_other transform_group_own)
  qed
qed

lemma filter_conv_positions:
  "filter P xs = map (nth xs) (filter (\<lambda>i. P (xs ! i)) [0 ..< length xs])"
proof (induction xs rule: rev_induct)
  case Nil
  then show ?case by simp
next
  case (snoc x xs)
  let ?n = "length xs"
  have a: "filter (\<lambda>i. P ((xs @ [x]) ! i)) [0 ..< ?n] = filter (\<lambda>i. P (xs ! i)) [0 ..< ?n]"
    by (rule filter_cong) (simp_all add: nth_append)
  have b: "map (nth (xs @ [x])) (filter (\<lambda>i. P (xs ! i)) [0 ..< ?n])
      = map (nth xs) (filter (\<lambda>i. P (xs ! i)) [0 ..< ?n])"
    by (rule map_cong) (simp_all add: nth_append)
  have "filter (\<lambda>i. P ((xs @ [x]) ! i)) [0 ..< length (xs @ [x])]
      = filter (\<lambda>i. P (xs ! i)) [0 ..< ?n] @ (if P x then [?n] else [])"
    by (simp add: a)
  then have "map (nth (xs @ [x])) (filter (\<lambda>i. P ((xs @ [x]) ! i)) [0 ..< length (xs @ [x])])
      = map (nth xs) (filter (\<lambda>i. P (xs ! i)) [0 ..< ?n]) @ (if P x then [x] else [])"
    by (simp add: b)
  with snoc show ?case by simp
qed

lemma transform_sessions_group:
  "map (nth (transform_sessions description)) (group_positions (map desc_subject description) s)
     = arange_plus_one (length (group_positions (map desc_subject description) s))"
proof (cases "s \<in> set (map desc_subject description)")
  case True
  then have "s \<in> set (sort (remdups (map desc_subject description)))" by simp
  moreover have "distinct (sort (remdups (map desc_subject description)))" by simp
  ultimately show ?thesis
    unfolding transform_sessions_def Let_def
    by (intro foldl_transform_group_own) simp_all
next
  case False
  then have "group_positions (map desc_subject description) s = []"
    by (auto simp: group_positions_def filter_empty_conv)
  then show ?thesis by (simp add: arange_plus_one_def)
qed

lemma length_transform_sessions: "length (transform_sessions description) = length description"
  by (simp add: transform_sessions_def Let_def length_foldl_transform_group)


lemma group_positions_subjects:
  "group_positions (map desc_subject description) s
     = filter (\<lambda>i. desc_subject (description ! i) = s) [0 ..< length description]"
  unfolding group_positions_def by (rule filter_cong) simp_all

lemma length_group_positions_subjects:
  "length (group_positions (map desc_subject description) s)
     = length (filter (\<lambda>r. desc_subject r = s) description)"
proof -
  have "length (filter (\<lambda>r. desc_subject r = s) description)
      = length (map (nth description)
          (filter (\<lambda>i. desc_subject (description ! i) = s) [0 ..< length description]))"
    by (subst filter_conv_positions) (rule refl)
  then show ?thesis by (simp add: group_positions_subjects)
qed

lemma arange_plus_one_upto: "arange_plus_one n = [1 .. int n]"
proof (induction n)
  case 0
  then show ?case by (simp add: arange_plus_one_def)
next
  case (Suc n)
  have "[1 .. int (Suc n)] = [1 .. int n] @ [int n + 1]"
    by (simp add: upto_rec2 add.commute)
  with Suc show ?case by (simp add: arange_plus_one_def)
qed

lemma sessions_of_subject_after_reset:
  "map desc_session (filter (\<lambda>r. desc_subject r = s) (reset_session_indices_step description))
     = map (nth (transform_sessions description))
         (group_positions (map desc_subject description) s)"
proof -
  let ?vs = "transform_sessions description"
  let ?zs = "zip description ?vs"
  let ?n = "length description"
  have len: "length ?zs = ?n" by (simp add: length_transform_sessions)
  have "map desc_session (filter (\<lambda>r. desc_subject r = s) (reset_session_indices_step description))
      = map snd (filter (\<lambda>z. desc_subject (fst z) = s) ?zs)"
    by (simp add: reset_session_indices_step_def filter_map comp_def case_prod_beta)
  also have "\<dots> = map snd (map (nth ?zs)
      (filter (\<lambda>i. desc_subject (fst (?zs ! i)) = s) [0 ..< length ?zs]))"
    by (subst filter_conv_positions) (rule refl)
  also have "\<dots> = map (\<lambda>i. snd (?zs ! i))
      (filter (\<lambda>i. desc_subject (fst (?zs ! i)) = s) [0 ..< ?n])"
    by (simp add: length_transform_sessions comp_def)
  also have "filter (\<lambda>i. desc_subject (fst (?zs ! i)) = s) [0 ..< ?n]
      = filter (\<lambda>i. desc_subject (description ! i) = s) [0 ..< ?n]"
    by (rule filter_cong) (simp_all add: length_transform_sessions)
  also have "map (\<lambda>i. snd (?zs ! i)) (filter (\<lambda>i. desc_subject (description ! i) = s) [0 ..< ?n])
      = map (nth ?vs) (filter (\<lambda>i. desc_subject (description ! i) = s) [0 ..< ?n])"
    by (rule map_cong) (simp_all add: length_transform_sessions)
  finally show ?thesis by (simp add: group_positions_subjects)
qed

lemma reset_keeps_other_columns:
  "map (\<lambda>r. r\<lparr>desc_session := 0\<rparr>) (reset_session_indices_step description)
     = map (\<lambda>r. r\<lparr>desc_session := 0\<rparr>) description"
proof -
  have "map (\<lambda>r. r\<lparr>desc_session := 0\<rparr>) (reset_session_indices_step description)
      = map (\<lambda>r. r\<lparr>desc_session := 0\<rparr>)
          (map fst (zip description (transform_sessions description)))"
    by (simp add: reset_session_indices_step_def comp_def case_prod_beta)
  then show ?thesis by (simp add: length_transform_sessions)
qed

text \<open>
  The reindexing step alone: the session numbers of the rows of every subject become
  1, 2, ..., k in the order of the rows, and no other column and no row position changes.
\<close>

lemma reset_session_indices_step_sessions:
  "map desc_session (filter (\<lambda>r. desc_subject r = s) (reset_session_indices_step description))
     = [1 .. int (length (filter (\<lambda>r. desc_subject r = s) description))]
   \<and> map (\<lambda>r. r\<lparr>desc_session := 0\<rparr>) (reset_session_indices_step description)
     = map (\<lambda>r. r\<lparr>desc_session := 0\<rparr>) description"
  by (simp add: sessions_of_subject_after_reset transform_sessions_group
      length_group_positions_subjects arange_plus_one_upto reset_keeps_other_columns)

section \<open>Properties of the number formatting\<close>

lemma digit_val_digit_char: "d < 10 \<Longrightarrow> digit_val (digit_char d) = d"
proof -
  assume "d < 10"
  then consider "d = 0" | "d = 1" | "d = 2" | "d = 3" | "d = 4" | "d = 5" | "d = 6"
    | "d = 7" | "d = 8" | "d = 9" by atomize_elim arith
  then show ?thesis
    by cases (simp_all add: digit_val_def digit_char_def)
qed

lemma digit_char_not_minus: "d < 10 \<Longrightarrow> digit_char d \<noteq> CHR ''-'' \<and> digit_char d \<noteq> CHR ''+''"
proof -
  assume "d < 10"
  then consider "d = 0" | "d = 1" | "d = 2" | "d = 3" | "d = 4" | "d = 5" | "d = 6"
    | "d = 7" | "d = 8" | "d = 9" by atomize_elim arith
  then show ?thesis
    by cases (simp_all add: digit_char_def)
qed

lemma digits_val_snoc: "digits_val (ds @ [c]) = 10 * digits_val ds + digit_val c"
  by (simp add: digits_val_def)

lemma digits_val_zeros: "digits_val (replicate k (CHR ''0'') @ ds) = digits_val ds"
proof -
  have dz: "digit_val (CHR ''0'') = 0" by (simp add: digit_val_def)
  have "foldl (\<lambda>a c. 10 * a + digit_val c) 0 (replicate k (CHR ''0'')) = 0"
    by (induction k) (simp_all add: dz)
  then show ?thesis by (simp add: digits_val_def)
qed

lemma digits_val_str_nat: "digits_val (str_nat n) = n"
proof (induction n rule: str_nat.induct)
  case (1 n)
  show ?case
  proof (cases "n < 10")
    case True
    then show ?thesis
      by (subst str_nat.simps) (simp add: digits_val_def digit_val_digit_char)
  next
    case False
    with 1 have "digits_val (str_nat (n div 10)) = n div 10" by simp
    with False show ?thesis
      by (subst str_nat.simps) (simp add: digits_val_snoc digit_val_digit_char)
  qed
qed

lemma str_nat_first: "\<exists>c cs. str_nat n = c # cs \<and> c \<noteq> CHR ''-'' \<and> c \<noteq> CHR ''+''"
proof (induction n rule: str_nat.induct)
  case (1 n)
  show ?case
  proof (cases "n < 10")
    case True
    then show ?thesis
      by (subst str_nat.simps) (simp add: digit_char_not_minus)
  next
    case False
    with 1 obtain c cs where "str_nat (n div 10) = c # cs" "c \<noteq> CHR ''-''" "c \<noteq> CHR ''+''"
      by blast
    with False show ?thesis
      by (subst str_nat.simps) simp
  qed
qed

lemma read_int_zfill: "read_int (zfill w (py_str i)) = i"
proof (cases "i < 0")
  case True
  let ?m = "nat (- i)"
  from True have s: "py_str i = CHR ''-'' # str_nat ?m" by (simp add: py_str_def)
  have "zfill w (py_str i) = CHR ''-'' # str_nat ?m
      \<or> zfill w (py_str i) = CHR ''-'' # replicate (w - length (py_str i)) (CHR ''0'') @ str_nat ?m"
    by (simp add: zfill_def s)
  then have "read_int (zfill w (py_str i)) = - int (digits_val (str_nat ?m))"
    by (auto simp: read_int_def digits_val_zeros)
  with True show ?thesis by (simp add: digits_val_str_nat)
next
  case False
  let ?m = "nat i"
  from False have s: "py_str i = str_nat ?m" by (simp add: py_str_def)
  obtain c cs where c: "str_nat ?m = c # cs" "c \<noteq> CHR ''-''" "c \<noteq> CHR ''+''"
    using str_nat_first by blast
  have z: "zfill w (py_str i) = str_nat ?m
      \<or> zfill w (py_str i) = replicate (w - length (str_nat ?m)) (CHR ''0'') @ str_nat ?m"
    using c by (simp add: zfill_def s)
  have "read_int (replicate k (CHR ''0'') @ str_nat ?m) = int (digits_val (str_nat ?m))" for k
  proof (cases k)
    case 0
    with c show ?thesis by (simp add: read_int_def)
  next
    case (Suc j)
    have "read_int (replicate (Suc j) (CHR ''0'') @ str_nat ?m)
        = int (digits_val (replicate (Suc j) (CHR ''0'') @ str_nat ?m))"
      by (simp add: read_int_def)
    then show ?thesis by (simp only: Suc digits_val_zeros)
  qed
  from this [of 0] this [of "w - length (str_nat ?m)"] z
  have "read_int (zfill w (py_str i)) = int (digits_val (str_nat ?m))" by auto
  with False show ?thesis by (simp add: digits_val_str_nat)
qed

lemma zfill_py_str_inj: "zfill w (py_str a) = zfill w (py_str b) \<Longrightarrow> a = b"
  by (metis read_int_zfill)

section \<open>Properties of the corpus conversion\<close>

lemma tcp_reference_cases: "tcp_reference p = Inr r \<Longrightarrow> r = []"
  by (auto simp: tcp_reference_def Let_def split: if_splits)

lemma convert_recording_success:
  assumes "convert_tuh_recording_to_bids lib ds bids_save_dir (Some desc) = Inr (p, info)"
  shows "p = bids_path_of bids_save_dir desc
       \<and> info_session info = desc_session desc
       \<and> info_subject info = desc_subject_orig desc
       \<and> info_participant_id info = zfill 4 (py_str (desc_subject desc))
       \<and> tcp_reference (desc_path desc) = Inr []"
proof -
  from assms obtain r where "tcp_reference (desc_path desc) = Inr r"
    by (auto simp: convert_tuh_recording_to_bids_def Let_def split: sum.splits option.splits)
  then have t: "tcp_reference (desc_path desc) = Inr []"
    using tcp_reference_cases by blast
  from assms have "p = bids_path_of bids_save_dir desc
       \<and> info_session info = desc_session desc
       \<and> info_subject info = desc_subject_orig desc
       \<and> info_participant_id info = bids_subject (bids_path_of bids_save_dir desc)"
    by (auto simp: convert_tuh_recording_to_bids_def Let_def split: sum.splits option.splits)
  with t show ?thesis by (simp add: bids_path_of_def)
qed

lemma convert_recording_bad_reference:
  assumes "tcp_reference (desc_path desc) = Inl e"
  shows "\<exists>e'. convert_tuh_recording_to_bids lib ds bids_save_dir (Some desc) = Inl e'"
  using assms
  by (auto simp: convert_tuh_recording_to_bids_def Let_def split: sum.splits option.splits)

lemma convert_recordings_success:
  "convert_recordings lib bids_save_dir pairs = (written, Inr df_info) \<Longrightarrow>
     written = map (\<lambda>z. bids_path_of bids_save_dir (snd z)) pairs
     \<and> map info_session df_info = map (\<lambda>z. desc_session (snd z)) pairs
     \<and> map info_subject df_info = map (\<lambda>z. desc_subject_orig (snd z)) pairs
     \<and> map info_participant_id df_info = map (\<lambda>z. zfill 4 (py_str (desc_subject (snd z)))) pairs
     \<and> list_all (\<lambda>z. tcp_reference (desc_path (snd z)) = Inr []) pairs"
proof (induction pairs arbitrary: written df_info)
  case Nil
  then show ?case by simp
next
  case (Cons z pairs)
  obtain ds desc where z: "z = (ds, desc)" by (cases z)
  from Cons.prems z obtain p info written' df_info' where
      c: "convert_tuh_recording_to_bids lib ds bids_save_dir (Some desc) = Inr (p, info)"
      and r: "convert_recordings lib bids_save_dir pairs = (written', Inr df_info')"
      and w: "written = p # written'" and d: "df_info = info # df_info'"
    by (auto split: if_splits sum.splits prod.splits)
  from convert_recording_success [OF c] Cons.IH [OF r] z w d show ?case by simp
qed

lemma convert_recordings_failure:
  "convert_recordings lib bids_save_dir pairs = (written, Inl e) \<Longrightarrow>
     length written < length pairs
     \<and> written = map (\<lambda>z. bids_path_of bids_save_dir (snd z)) (take (length written) pairs)"
proof (induction pairs arbitrary: written)
  case Nil
  then show ?case by simp
next
  case (Cons z pairs)
  obtain ds desc where z: "z = (ds, desc)" by (cases z)
  show ?case
  proof (cases "written = []")
    case True
    then show ?thesis by simp
  next
    case False
    with Cons.prems z obtain p info written' where
        c: "convert_tuh_recording_to_bids lib ds bids_save_dir (Some desc) = Inr (p, info)"
        and r: "convert_recordings lib bids_save_dir pairs = (written', Inl e)"
        and w: "written = p # written'"
      by (auto split: if_splits sum.splits prod.splits)
    from convert_recording_success [OF c] Cons.IH [OF r] z w show ?thesis by simp
  qed
qed


lemma concat_split_files_step_Nil: "concat_split_files_step [] = Inr []"
  by (simp add: concat_split_files_step_def n_segments_per_session_def unique_def)

lemma concat_split_files_step_success:
  "concat_split_files_step description = Inr description1 \<Longrightarrow>
     description1 = map (\<lambda>r. r\<lparr>desc_segment := StrV ''001''\<rparr>) description"
  by (auto simp: concat_split_files_step_def split: sum.splits bool.splits)

lemma desc_session_reset:
  "map desc_session (reset_session_indices_step description) = transform_sessions description"
proof -
  have "map desc_session (reset_session_indices_step description)
      = map snd (zip description (transform_sessions description))"
    by (simp add: reset_session_indices_step_def comp_def case_prod_beta)
  then show ?thesis by (simp add: length_transform_sessions)
qed

lemma desc_path_reset:
  "map desc_path (reset_session_indices_step description) = map desc_path description"
proof -
  have "map desc_path (reset_session_indices_step description)
      = map desc_path (map fst (zip description (transform_sessions description)))"
    by (simp add: reset_session_indices_step_def comp_def case_prod_beta)
  then show ?thesis by (simp add: length_transform_sessions)
qed

lemma length_reset: "length (reset_session_indices_step description) = length description"
  by (simp add: reset_session_indices_step_def length_transform_sessions)

lemma transform_sessions_collapsed:
  "transform_sessions (map (\<lambda>r. r\<lparr>desc_segment := x\<rparr>) description)
     = transform_sessions description"
  by (simp add: transform_sessions_def comp_def)

text \<open>The table handed to the loop, when the two preparation steps succeed.\<close>

lemma prepared_description:
  assumes "(if concat_flag then concat_split_files_step description else Inr description)
             = Inr description1"
  shows "length (if reset_flag then reset_session_indices_step description1 else description1)
           = length description
       \<and> map desc_path (if reset_flag then reset_session_indices_step description1 else description1)
           = map desc_path description
       \<and> (reset_flag \<longrightarrow> map desc_session (reset_session_indices_step description1)
           = transform_sessions description)"
proof -
  from assms have d: "description1 = description
      \<or> description1 = map (\<lambda>r. r\<lparr>desc_segment := StrV ''001''\<rparr>) description"
    by (auto split: if_splits dest: concat_split_files_step_success)
  then have "length description1 = length description"
    and "map desc_path description1 = map desc_path description"
    and "transform_sessions description1 = transform_sessions description"
    by (auto simp: comp_def transform_sessions_collapsed)
  then show ?thesis by (simp add: length_reset desc_path_reset desc_session_reset)
qed

lemma convert_tuab_to_bids_unfold:
  "convert_tuab_to_bids lib concat_ds bids_save_dir False reset_flag concat_flag =
     (case (if concat_flag then concat_split_files_step (map description_of concat_ds)
            else Inr (map description_of concat_ds)) of
        Inl e \<Rightarrow> ([], Inl e)
      | Inr description1 \<Rightarrow>
          convert_recordings lib bids_save_dir
            (zip concat_ds (if reset_flag then reset_session_indices_step description1
                            else description1)))"
  by (simp add: convert_tuab_to_bids_def Let_def split: sum.splits)

lemma convert_tuab_to_bids_selected:
  assumes "datasets = (if healthy_only
                       then filter (\<lambda>ds. \<not> desc_pathological (description_of ds)) concat_ds
                       else concat_ds)"
  shows "convert_tuab_to_bids lib concat_ds bids_save_dir healthy_only reset_flag concat_flag =
     (if healthy_only \<and> datasets = [] then ([], Inl (KeyError ''False''))
      else convert_tuab_to_bids lib datasets bids_save_dir False reset_flag concat_flag)"
  using assms by (simp add: convert_tuab_to_bids_def split_healthy_def Let_def)

lemma desc_subject_reset:
  "map desc_subject (reset_session_indices_step description) = map desc_subject description"
proof -
  have "map desc_subject (reset_session_indices_step description)
      = map desc_subject (map fst (zip description (transform_sessions description)))"
    by (simp add: reset_session_indices_step_def comp_def case_prod_beta)
  then show ?thesis by (simp add: length_transform_sessions)
qed

lemma count_by_key:
  assumes "map f xs = map g ys"
  shows "length (filter (\<lambda>x. f x = s) (take n xs)) = length (filter (\<lambda>y. g y = s) (take n ys))"
proof -
  have "length (filter (\<lambda>x. f x = s) (take n xs))
      = length (filter (\<lambda>v. v = s) (map f (take n xs)))"
    by (simp add: filter_map comp_def)
  also have "\<dots> = length (filter (\<lambda>v. v = s) (map g (take n ys)))"
    by (simp only: take_map [symmetric] assms)
  also have "\<dots> = length (filter (\<lambda>y. g y = s) (take n ys))"
    by (simp add: filter_map comp_def)
  finally show ?thesis .
qed

lemma filter_by_key:
  "map a xs = map a' ys \<Longrightarrow> map b xs = map b' ys
     \<Longrightarrow> map b (filter (\<lambda>x. a x = k) xs) = map b' (filter (\<lambda>y. a' y = k) ys)"
proof (induction xs arbitrary: ys)
  case Nil
  then show ?case by simp
next
  case (Cons x xs)
  then obtain y ys' where "ys = y # ys'" by (cases ys) auto
  with Cons show ?case by auto
qed

lemma filter_take_prefix:
  "filter P (take n xs) = take (length (filter P (take n xs))) (filter P xs)"
proof -
  have "filter P xs = filter P (take n xs) @ filter P (drop n xs)"
    by (simp only: filter_append [symmetric] append_take_drop_id)
  then show ?thesis by simp
qed

lemma take_arange_plus_one:
  "m \<le> k \<Longrightarrow> take m (arange_plus_one k) = arange_plus_one m"
  by (simp add: arange_plus_one_def take_map)

lemma convert_recordings_prefix:
  "convert_recordings lib bids_save_dir pairs = (written, res) \<Longrightarrow>
     length written \<le> length pairs
     \<and> (\<forall>j < length written. \<exists>info.
           convert_tuh_recording_to_bids lib (fst (pairs ! j)) bids_save_dir (Some (snd (pairs ! j)))
             = Inr (written ! j, info))
     \<and> (\<forall>e. res = Inl e \<longrightarrow> length written < length pairs
           \<and> (convert_tuh_recording_to_bids lib (fst (pairs ! length written)) bids_save_dir
                  (Some (snd (pairs ! length written))) = Inl e
               \<or> desc_path (description_of (fst (pairs ! length written)))
                    \<noteq> desc_path (snd (pairs ! length written))))
     \<and> (\<forall>df_info. res = Inr df_info \<longrightarrow> length written = length pairs)"
proof (induction pairs arbitrary: written res)
  case Nil
  then show ?case by auto
next
  case (Cons z pairs)
  obtain ds desc where z: "z = (ds, desc)" by (cases z)
  show ?case
  proof (cases "desc_path (description_of ds) \<noteq> desc_path desc")
    case True
    with Cons.prems z have "written = []" "res = Inl (AssertionError [])" by simp_all
    with True z show ?thesis by simp
  next
    case same: False
    show ?thesis
    proof (cases "convert_tuh_recording_to_bids lib ds bids_save_dir (Some desc)")
      case (Inl e)
      with Cons.prems z same have "written = []" "res = Inl e" by simp_all
      with Inl z show ?thesis by simp
    next
      case (Inr pi)
      obtain p info where pi: "pi = (p, info)" by (cases pi)
      obtain written' res' where r: "convert_recordings lib bids_save_dir pairs = (written', res')"
        by (cases "convert_recordings lib bids_save_dir pairs")
      from Cons.prems z same Inr pi r have w: "written = p # written'"
        and e: "\<forall>e. res = Inl e \<longrightarrow> res' = Inl e"
        and e': "\<forall>df_info. res = Inr df_info \<longrightarrow> (\<exists>df_info'. res' = Inr df_info')"
        by (auto split: sum.splits)
      from Cons.IH [OF r] have
        a: "length written' \<le> length pairs"
        and b: "\<forall>j < length written'. \<exists>info.
           convert_tuh_recording_to_bids lib (fst (pairs ! j)) bids_save_dir (Some (snd (pairs ! j)))
             = Inr (written' ! j, info)"
        and c: "\<forall>e. res' = Inl e \<longrightarrow> length written' < length pairs
           \<and> (convert_tuh_recording_to_bids lib (fst (pairs ! length written')) bids_save_dir
                  (Some (snd (pairs ! length written'))) = Inl e
               \<or> desc_path (description_of (fst (pairs ! length written')))
                    \<noteq> desc_path (snd (pairs ! length written')))"
        and d: "\<forall>df_info. res' = Inr df_info \<longrightarrow> length written' = length pairs"
        by simp_all
      have b': "\<exists>info. convert_tuh_recording_to_bids lib (fst ((z # pairs) ! j)) bids_save_dir
                  (Some (snd ((z # pairs) ! j))) = Inr (written ! j, info)"
        if "j < length written" for j
      proof (cases j)
        case 0
        with Inr pi z w show ?thesis by simp
      next
        case (Suc j')
        with that w have "j' < length written'" by simp
        with b Suc w show ?thesis by simp
      qed
      from a w have a': "length written \<le> length (z # pairs)" by simp
      from c w e have c': "\<forall>e. res = Inl e \<longrightarrow> length written < length (z # pairs)
           \<and> (convert_tuh_recording_to_bids lib (fst ((z # pairs) ! length written)) bids_save_dir
                  (Some (snd ((z # pairs) ! length written))) = Inl e
               \<or> desc_path (description_of (fst ((z # pairs) ! length written)))
                    \<noteq> desc_path (snd ((z # pairs) ! length written)))"
        by auto
      from d w e' have d': "\<forall>df_info. res = Inr df_info \<longrightarrow> length written = length (z # pairs)"
        by auto
      from a' b' c' d' show ?thesis by blast
    qed
  qed
qed

lemma convert_recordings_written:
  "convert_recordings lib bids_save_dir pairs = (written, res) \<Longrightarrow>
     written = map (\<lambda>z. bids_path_of bids_save_dir (snd z)) (take (length written) pairs)"
proof (cases res)
  case (Inl e)
  assume "convert_recordings lib bids_save_dir pairs = (written, res)"
  with Inl show ?thesis by (simp add: convert_recordings_failure)
next
  case (Inr df_info)
  assume "convert_recordings lib bids_save_dir pairs = (written, res)"
  with Inr have "written = map (\<lambda>z. bids_path_of bids_save_dir (snd z)) pairs"
    by (simp add: convert_recordings_success)
  then show ?thesis by simp
qed

lemma sessions_of_subject_arange:
  "map desc_session (filter (\<lambda>r. desc_subject r = s) (reset_session_indices_step description))
     = arange_plus_one (length (filter (\<lambda>r. desc_subject r = s)
         (reset_session_indices_step description)))"
proof -
  have "length (filter (\<lambda>r. desc_subject r = s) (take (length description)
           (reset_session_indices_step description)))
      = length (filter (\<lambda>r. desc_subject r = s) (take (length description) description))"
    by (rule count_by_key) (rule desc_subject_reset)
  then have "length (filter (\<lambda>r. desc_subject r = s) (reset_session_indices_step description))
      = length (filter (\<lambda>r. desc_subject r = s) description)"
    by (simp add: length_reset)
  then show ?thesis
    by (simp add: sessions_of_subject_after_reset transform_sessions_group
        length_group_positions_subjects)
qed

text \<open>
  The rows handed to the loop: one for each dataset, with the path and the subject of
  the dataset. If a preparation step raises, nothing is written.
\<close>

lemma conversion_rows:
  assumes "convert_tuab_to_bids lib datasets bids_save_dir False reset_flag concat_flag
             = (written, res)"
  shows "\<exists>rows. length rows = length datasets
     \<and> map desc_path rows = map (\<lambda>ds. desc_path (description_of ds)) datasets
     \<and> map desc_subject rows = map (\<lambda>ds. desc_subject (description_of ds)) datasets
     \<and> (reset_flag \<longrightarrow> (\<forall>s. map desc_session (filter (\<lambda>r. desc_subject r = s) rows)
            = arange_plus_one (length (filter (\<lambda>r. desc_subject r = s) rows))))
     \<and> ((written = [] \<and> concat_flag
           \<and> (\<exists>e. res = Inl e
                  \<and> concat_split_files_step (map description_of datasets) = Inl e))
          \<or> convert_recordings lib bids_save_dir (zip datasets rows) = (written, res))
     \<and> written = map (bids_path_of bids_save_dir) (take (length written) rows)
     \<and> (\<forall>df_info. res = Inr df_info \<longrightarrow> length written = length datasets
           \<and> map info_session df_info = map desc_session rows
           \<and> map info_participant_id df_info
               = map (\<lambda>r. zfill 4 (py_str (desc_subject r))) rows)"
proof -
  let ?description = "map description_of datasets"
  let ?prep = "if concat_flag then concat_split_files_step ?description else Inr ?description"
  define d1 where "d1 = (case ?prep of Inl e \<Rightarrow> ?description | Inr d \<Rightarrow> d)"
  define rows where "rows = (if reset_flag then reset_session_indices_step d1 else d1)"
  have d: "d1 = ?description
      \<or> d1 = map (\<lambda>r. r\<lparr>desc_segment := StrV ''001''\<rparr>) ?description"
    unfolding d1_def by (auto split: sum.splits if_splits dest: concat_split_files_step_success)
  then have l1: "length d1 = length datasets"
    and p1: "map desc_path d1 = map (\<lambda>ds. desc_path (description_of ds)) datasets"
    and s1: "map desc_subject d1 = map (\<lambda>ds. desc_subject (description_of ds)) datasets"
    by (auto simp: comp_def)
  from l1 have l: "length rows = length datasets"
    by (simp add: rows_def length_reset)
  from p1 have p: "map desc_path rows = map (\<lambda>ds. desc_path (description_of ds)) datasets"
    by (simp add: rows_def desc_path_reset)
  from s1 have s: "map desc_subject rows = map (\<lambda>ds. desc_subject (description_of ds)) datasets"
    by (simp add: rows_def desc_subject_reset)
  have r: "reset_flag \<longrightarrow> (\<forall>s. map desc_session (filter (\<lambda>r. desc_subject r = s) rows)
            = arange_plus_one (length (filter (\<lambda>r. desc_subject r = s) rows)))"
    by (simp add: rows_def sessions_of_subject_arange)
  have c: "(written = [] \<and> concat_flag
           \<and> (\<exists>e. res = Inl e
                  \<and> concat_split_files_step (map description_of datasets) = Inl e))
          \<or> convert_recordings lib bids_save_dir (zip datasets rows) = (written, res)"
  proof (cases ?prep)
    case (Inl e)
    with assms have "written = []" "res = Inl e"
      by (simp_all add: convert_tuab_to_bids_unfold)
    moreover from Inl have "concat_flag"
      and "concat_split_files_step (map description_of datasets) = Inl e"
      by (auto split: if_splits)
    ultimately show ?thesis by simp
  next
    case (Inr description1)
    then have "d1 = description1" by (simp add: d1_def)
    with assms Inr show ?thesis
      by (auto simp: convert_tuab_to_bids_unfold rows_def)
  qed
  have w: "written = map (bids_path_of bids_save_dir) (take (length written) rows)"
  proof (cases "convert_recordings lib bids_save_dir (zip datasets rows) = (written, res)")
    case False
    with c show ?thesis by simp
  next
    case True
    from convert_recordings_written [OF True]
    have "written = map (\<lambda>z. bids_path_of bids_save_dir (snd z))
        (take (length written) (zip datasets rows))" .
    also have "\<dots> = map (bids_path_of bids_save_dir)
        (map snd (take (length written) (zip datasets rows)))"
      by (simp only: map_map comp_def)
    also from l have "map snd (take (length written) (zip datasets rows))
        = take (length written) rows"
      by (simp add: take_map [symmetric])
    finally show ?thesis .
  qed
  have i: "length written = length datasets
           \<and> map info_session df_info = map desc_session rows
           \<and> map info_participant_id df_info
               = map (\<lambda>r. zfill 4 (py_str (desc_subject r))) rows"
    if "res = Inr df_info" for df_info
  proof -
    from c that have "convert_recordings lib bids_save_dir (zip datasets rows)
        = (written, Inr df_info)" by auto
    note ok = convert_recordings_success [OF this]
    from l have sn: "map snd (zip datasets rows) = rows" by simp
    from ok l have "length written = length datasets" by simp
    moreover from ok have "map info_session df_info
        = map desc_session (map snd (zip datasets rows))"
      by (simp only: map_map comp_def)
    moreover from ok have "map info_participant_id df_info
        = map (\<lambda>r. zfill 4 (py_str (desc_subject r))) (map snd (zip datasets rows))"
      by (simp only: map_map comp_def)
    ultimately show ?thesis by (simp only: sn)
  qed
  from l p s r c w i show ?thesis by blast
qed

text \<open>
  C3, as stated, fails: the recording with the unknown reference ends the conversion
  with its \<^verbatim>\<open>ValueError\<close>. The recording before it was written, the one after it
  (whose reference is known) is never converted, and no summary table is saved.
\<close>

theorem unknown_reference_aborts_conversion:
  "convert_tuab_to_bids example_lib
     [example_recording ''x/01_tcp_ar/a_s003_t000.edf'' 0 3 0,
      example_recording ''x/01_tcp_xx/a_s007_t000.edf'' 0 7 0,
      example_recording ''x/01_tcp_le/b_s001_t000.edf'' 1 1 0] ''out'' False True True
   = ([\<lparr>bids_subject = ''0000'', bids_session = ''001'', bids_task = ''rest'',
         bids_run = StrV ''001'', bids_root = ''out'', bids_datatype = ''eeg''\<rparr>],
      Inl (ValueError ''Unknown reference found in file name: xx.''))
   \<and> tcp_reference ''x/01_tcp_le/b_s001_t000.edf'' = Inr []"
  by code_simp

text \<open>
  C3 (amended): a hard failure while converting one recording is not isolated. The
  recordings are converted in the order of the index (of the non-pathological ones with
  \<^verbatim>\<open>healthy_only\<close>); the first failure leaves \<^verbatim>\<open>convert_tuab_to_bids\<close> as its
  exception (an exception can also leave before the loop, from the selection of the
  non-pathological recordings or from the check for split files), the failing
  recording and every recording after it are not converted, and no summary table is
  saved. In particular nothing at or after a recording without a
  recognised reference token is converted. A summary table is saved only when every one
  of these recordings was converted, and then it has one row for each of them.
\<close>

theorem conversion_failure_propagates:
  assumes "convert_tuab_to_bids lib concat_ds bids_save_dir healthy_only reset_flag
             concat_split_files = (written, res)"
    and "datasets = (if healthy_only
                     then filter (\<lambda>ds. \<not> desc_pathological (description_of ds)) concat_ds
                     else concat_ds)"
  shows "(\<forall>df_info. res = Inr df_info \<longrightarrow>
            length df_info = length datasets \<and> length written = length datasets
            \<and> list_all (\<lambda>ds. tcp_reference (desc_path (description_of ds)) = Inr []) datasets)
       \<and> (\<forall>e. res = Inl e \<longrightarrow>
            length written \<le> length datasets
            \<and> (datasets \<noteq> [] \<longrightarrow> length written < length datasets))
       \<and> (\<forall>i e. i < length datasets
               \<and> tcp_reference (desc_path (description_of (datasets ! i))) = Inl e
            \<longrightarrow> length written \<le> i \<and> (\<exists>e'. res = Inl e'))
       \<and> (\<exists>rows. length rows = length datasets
            \<and> map desc_path rows = map (\<lambda>ds. desc_path (description_of ds)) datasets
            \<and> written = map (bids_path_of bids_save_dir) (take (length written) rows)
            \<and> (\<forall>j < length written. \<exists>info.
                  convert_tuh_recording_to_bids lib (datasets ! j) bids_save_dir (Some (rows ! j))
                    = Inr (written ! j, info))
            \<and> (\<forall>e. res = Inl e \<longrightarrow>
                  (healthy_only \<and> datasets = [] \<and> e = KeyError ''False'')
                  \<or> (concat_split_files
                       \<and> concat_split_files_step (map description_of datasets) = Inl e)
                  \<or> convert_tuh_recording_to_bids lib (datasets ! length written) bids_save_dir
                       (Some (rows ! length written)) = Inl e))"
proof (cases "healthy_only \<and> datasets = []")
  case True
  from convert_tuab_to_bids_selected [OF assms(2), of lib bids_save_dir reset_flag concat_split_files]
    True assms(1)
  have "written = []" "res = Inl (KeyError ''False'')" by simp_all
  with True show ?thesis by simp
next
  case False
  from convert_tuab_to_bids_selected [OF assms(2), of lib bids_save_dir reset_flag concat_split_files]
    False assms(1)
  have conv: "convert_tuab_to_bids lib datasets bids_save_dir False reset_flag concat_split_files
      = (written, res)"
    by simp
  from conversion_rows [OF conv] obtain rows :: "recording list" where
      l: "length rows = length datasets"
      and p: "map desc_path rows = map (\<lambda>ds. desc_path (description_of ds)) datasets"
      and c: "(written = [] \<and> concat_split_files
           \<and> (\<exists>e. res = Inl e
                  \<and> concat_split_files_step (map description_of datasets) = Inl e))
          \<or> convert_recordings lib bids_save_dir (zip datasets rows) = (written, res)"
      and h: "written = map (bids_path_of bids_save_dir) (take (length written) rows)"
    by blast
  have path: "desc_path (rows ! j) = desc_path (description_of (datasets ! j))"
    if "j < length datasets" for j
  proof -
    from that l have "desc_path (rows ! j) = map desc_path rows ! j" by simp
    also from that have "\<dots> = desc_path (description_of (datasets ! j))"
      by (simp add: p)
    finally show ?thesis .
  qed
  have nonempty: "datasets \<noteq> []" if "written = []" "res = Inl e" 
    "convert_recordings lib bids_save_dir (zip datasets rows) \<noteq> (written, res)" for e
  proof
    assume "datasets = []"
    with conv that(2) show False
      by (cases concat_split_files) (simp_all add: convert_tuab_to_bids_unfold concat_split_files_step_Nil)
  qed
  have pre: "length written \<le> length datasets
     \<and> (\<forall>j < length written. \<exists>info.
           convert_tuh_recording_to_bids lib (datasets ! j) bids_save_dir (Some (rows ! j))
             = Inr (written ! j, info))
     \<and> (\<forall>e. res = Inl e \<longrightarrow> (datasets \<noteq> [] \<longrightarrow> length written < length datasets)
           \<and> ((concat_split_files
                 \<and> concat_split_files_step (map description_of datasets) = Inl e)
                \<or> convert_tuh_recording_to_bids lib (datasets ! length written) bids_save_dir
                     (Some (rows ! length written)) = Inl e))
     \<and> (\<forall>df_info. res = Inr df_info \<longrightarrow> length written = length datasets
           \<and> length df_info = length datasets)
     \<and> written = map (bids_path_of bids_save_dir) (take (length written) rows)"
  proof (cases "convert_recordings lib bids_save_dir (zip datasets rows) = (written, res)")
    case neq: False
    with c obtain e where w: "written = []" and e: "res = Inl e"
      and f: "concat_split_files"
         "concat_split_files_step (map description_of datasets) = Inl e" by blast
    from nonempty [OF w e neq] w e f show ?thesis by simp
  next
    case eq: True
    note pre = convert_recordings_prefix [OF eq]
    from l have lz: "length (zip datasets rows) = length datasets" by simp
    from pre have "length written \<le> length (zip datasets rows)" by blast
    then have a: "length written \<le> length datasets" by (simp only: lz)
    from pre have b: "\<forall>j < length written. \<exists>info.
           convert_tuh_recording_to_bids lib (fst (zip datasets rows ! j)) bids_save_dir
             (Some (snd (zip datasets rows ! j))) = Inr (written ! j, info)"
      by blast
    from pre have "\<forall>e. res = Inl e \<longrightarrow> length written < length (zip datasets rows)
           \<and> (convert_tuh_recording_to_bids lib (fst (zip datasets rows ! length written)) bids_save_dir
                  (Some (snd (zip datasets rows ! length written))) = Inl e
               \<or> desc_path (description_of (fst (zip datasets rows ! length written)))
                    \<noteq> desc_path (snd (zip datasets rows ! length written)))"
      by blast
    then have f: "\<forall>e. res = Inl e \<longrightarrow> length written < length datasets
           \<and> (convert_tuh_recording_to_bids lib (fst (zip datasets rows ! length written)) bids_save_dir
                  (Some (snd (zip datasets rows ! length written))) = Inl e
               \<or> desc_path (description_of (fst (zip datasets rows ! length written)))
                    \<noteq> desc_path (snd (zip datasets rows ! length written)))"
      by (simp only: lz)
    from pre have "\<forall>df_info. res = Inr df_info \<longrightarrow> length written = length (zip datasets rows)"
      by blast
    then have g: "\<forall>df_info. res = Inr df_info \<longrightarrow> length written = length datasets"
      by (simp only: lz)
    have b': "\<exists>info. convert_tuh_recording_to_bids lib (datasets ! j) bids_save_dir (Some (rows ! j))
             = Inr (written ! j, info)" if "j < length written" for j
    proof -
      from that a l have z: "zip datasets rows ! j = (datasets ! j, rows ! j)" by simp
      from b that obtain info where
          "convert_tuh_recording_to_bids lib (fst (zip datasets rows ! j)) bids_save_dir
             (Some (snd (zip datasets rows ! j))) = Inr (written ! j, info)"
        by blast
      then have "convert_tuh_recording_to_bids lib (datasets ! j) bids_save_dir (Some (rows ! j))
             = Inr (written ! j, info)"
        by (simp only: z fst_conv snd_conv)
      then show ?thesis by (rule exI)
    qed
    have f': "length written < length datasets
           \<and> convert_tuh_recording_to_bids lib (datasets ! length written) bids_save_dir
                  (Some (rows ! length written)) = Inl e" if "res = Inl e" for e
    proof -
      from f that have n: "length written < length datasets" by blast
      with l have z: "zip datasets rows ! length written
          = (datasets ! length written, rows ! length written)" by simp
      from path [OF n] have q: "desc_path (description_of (datasets ! length written))
          = desc_path (rows ! length written)" by simp
      from f that have "convert_tuh_recording_to_bids lib (fst (zip datasets rows ! length written))
            bids_save_dir (Some (snd (zip datasets rows ! length written))) = Inl e
          \<or> desc_path (description_of (fst (zip datasets rows ! length written)))
               \<noteq> desc_path (snd (zip datasets rows ! length written))"
        by blast
      then have "convert_tuh_recording_to_bids lib (datasets ! length written)
            bids_save_dir (Some (rows ! length written)) = Inl e
          \<or> desc_path (description_of (datasets ! length written))
               \<noteq> desc_path (rows ! length written)"
        by (simp only: z fst_conv snd_conv)
      with q n show ?thesis by simp
    qed
    have g': "length written = length datasets \<and> length df_info = length datasets"
      if "res = Inr df_info" for df_info
    proof -
      from eq that have "convert_recordings lib bids_save_dir (zip datasets rows)
          = (written, Inr df_info)" by simp
      from convert_recordings_success [OF this] l
      have "length (map info_session df_info) = length datasets" by simp
      with g that show ?thesis by simp
    qed
    from a b' f' g' h show ?thesis by blast
  qed
  have refs: "length written \<le> i"
    if i: "i < length datasets"
      and t: "tcp_reference (desc_path (description_of (datasets ! i))) = Inl e" for i e
  proof (rule ccontr)
    assume "\<not> length written \<le> i"
    then have "i < length written" by simp
    with pre obtain info where
        "convert_tuh_recording_to_bids lib (datasets ! i) bids_save_dir (Some (rows ! i))
           = Inr (written ! i, info)" by blast
    from convert_recording_success [OF this]
    have "tcp_reference (desc_path (rows ! i)) = Inr []" by simp
    with path [OF i] t show False by simp
  qed
  have ok: "list_all (\<lambda>ds. tcp_reference (desc_path (description_of ds)) = Inr []) datasets"
    if r: "res = Inr df_info" for df_info
  proof -
    from pre r have n: "length written = length datasets" by blast
    have "tcp_reference (desc_path (description_of (datasets ! j))) = Inr []"
      if j: "j < length datasets" for j
    proof -
      from j n pre obtain info where
        "convert_tuh_recording_to_bids lib (datasets ! j) bids_save_dir (Some (rows ! j))
           = Inr (written ! j, info)" by auto
      from convert_recording_success [OF this]
      have "tcp_reference (desc_path (rows ! j)) = Inr []" by simp
      with path [OF j] show ?thesis by simp
    qed
    then show ?thesis by (simp add: list_all_length)
  qed
  have fails: "\<exists>e'. res = Inl e'"
    if i: "i < length datasets"
      and t: "tcp_reference (desc_path (description_of (datasets ! i))) = Inl e" for i e
  proof (cases res)
    case (Inl e')
    then show ?thesis by blast
  next
    case (Inr df_info)
    from ok [OF Inr] i have "tcp_reference (desc_path (description_of (datasets ! i))) = Inr []"
      by (simp add: list_all_length)
    with t show ?thesis by simp
  qed
  have A: "\<forall>df_info. res = Inr df_info \<longrightarrow>
            length df_info = length datasets \<and> length written = length datasets
            \<and> list_all (\<lambda>ds. tcp_reference (desc_path (description_of ds)) = Inr []) datasets"
    using pre ok by blast
  have B: "\<forall>e. res = Inl e \<longrightarrow>
            length written \<le> length datasets
            \<and> (datasets \<noteq> [] \<longrightarrow> length written < length datasets)"
    using pre by blast
  have C: "\<forall>i e. i < length datasets
               \<and> tcp_reference (desc_path (description_of (datasets ! i))) = Inl e
            \<longrightarrow> length written \<le> i \<and> (\<exists>e'. res = Inl e')"
    using refs fails by blast
  have D: "\<exists>rows. length rows = length datasets
            \<and> map desc_path rows = map (\<lambda>ds. desc_path (description_of ds)) datasets
            \<and> written = map (bids_path_of bids_save_dir) (take (length written) rows)
            \<and> (\<forall>j < length written. \<exists>info.
                  convert_tuh_recording_to_bids lib (datasets ! j) bids_save_dir (Some (rows ! j))
                    = Inr (written ! j, info))
            \<and> (\<forall>e. res = Inl e \<longrightarrow>
                  (healthy_only \<and> datasets = [] \<and> e = KeyError ''False'')
                  \<or> (concat_split_files
                       \<and> concat_split_files_step (map description_of datasets) = Inl e)
                  \<or> convert_tuh_recording_to_bids lib (datasets ! length written) bids_save_dir
                       (Some (rows ! length written)) = Inl e)"
    using l p pre by (intro exI [of _ rows]) blast
  from A B C D show ?thesis by (intro conjI)
qed

theorem conversion_failure_propagates_witness:
  "(\<exists>written res.
     convert_tuab_to_bids example_lib
       [example_recording ''x/01_tcp_ar/a_s003_t000.edf'' 0 3 0,
        example_recording ''x/01_tcp_xx/a_s007_t000.edf'' 0 7 0,
        example_recording ''x/01_tcp_le/b_s001_t000.edf'' 1 1 0] ''out'' False True True
       = (written, res)
     \<and> length written \<le> 1 \<and> (\<exists>e. res = Inl e))
   \<and> (\<exists>written df_info.
     convert_tuab_to_bids example_lib
       [example_recording ''x/01_tcp_ar/a_s003_t000.edf'' 0 3 0,
        example_recording ''x/01_tcp_le/a_s007_t000.edf'' 0 7 0] ''out'' False True True
       = (written, Inr df_info)
     \<and> length df_info = 2 \<and> length written = 2)"
proof -
  let ?bad = "[example_recording ''x/01_tcp_ar/a_s003_t000.edf'' 0 3 0,
        example_recording ''x/01_tcp_xx/a_s007_t000.edf'' 0 7 0,
        example_recording ''x/01_tcp_le/b_s001_t000.edf'' 1 1 0]"
  obtain written res where
      b: "convert_tuab_to_bids example_lib ?bad ''out'' False True True = (written, res)"
    by (cases "convert_tuab_to_bids example_lib ?bad ''out'' False True True")
  have s: "?bad = (if False then filter (\<lambda>ds. \<not> desc_pathological (description_of ds)) ?bad
                   else ?bad)" by simp
  have "tcp_reference (desc_path (description_of (?bad ! 1)))
      = Inl (ValueError ''Unknown reference found in file name: xx.'')"
    by code_simp
  moreover have "(1::nat) < length ?bad" by simp
  ultimately have "length written \<le> 1 \<and> (\<exists>e'. res = Inl e')"
    using conversion_failure_propagates [OF b s] by blast
  with b have first: "\<exists>written res.
     convert_tuab_to_bids example_lib ?bad ''out'' False True True = (written, res)
     \<and> length written \<le> 1 \<and> (\<exists>e. res = Inl e)"
    by blast
  let ?ds = "[example_recording ''x/01_tcp_ar/a_s003_t000.edf'' 0 3 0,
        example_recording ''x/01_tcp_le/a_s007_t000.edf'' 0 7 0]"
  have "map_sum id (\<lambda>t. ()) (snd (convert_tuab_to_bids example_lib ?ds ''out'' False True True))
      = Inr ()"
    by code_simp
  then obtain written' df_info where
      c: "convert_tuab_to_bids example_lib ?ds ''out'' False True True = (written', Inr df_info)"
    by (cases "convert_tuab_to_bids example_lib ?ds ''out'' False True True";
        cases "snd (convert_tuab_to_bids example_lib ?ds ''out'' False True True)") auto
  have s': "?ds = (if False then filter (\<lambda>ds. \<not> desc_pathological (description_of ds)) ?ds
                   else ?ds)" by simp
  from conversion_failure_propagates [OF c s']
  have "length df_info = length ?ds \<and> length written' = length ?ds" by blast
  with c have second: "\<exists>written df_info.
     convert_tuab_to_bids example_lib ?ds ''out'' False True True = (written, Inr df_info)
     \<and> length df_info = 2 \<and> length written = 2"
    by simp
  from first second show ?thesis by (rule conjI)
qed

text \<open>
  A recording whose sex was defaulted to \<open>X\<close> by the header extraction has no entry in
  \<^verbatim>\<open>SEX_TO_MNE\<close>: its conversion raises \<^verbatim>\<open>KeyError\<close>.
\<close>

lemma defaulted_sex_raises_KeyError:
  "convert_tuh_recording_to_bids example_lib
     (example_recording ''x/01_tcp_ar/a_s003_t000.edf'' 0 3 0) ''out''
     (Some ((description_of (example_recording ''x/01_tcp_ar/a_s003_t000.edf'' 0 3 0))
              \<lparr>desc_gender := ''X''\<rparr>))
   = Inl (KeyError ''x'')"
  by code_simp





lemma unique_set: "set (unique xs) = set xs"
  by (simp add: unique_def)

lemma unique_distinct: "distinct (unique xs)"
  by (simp add: unique_def)

lemma distinct_all_one:
  assumes "distinct (us :: nat list)" "\<forall>n \<in> set us. n = 1"
  shows "us = [] \<or> us = [1]"
proof (cases us)
  case Nil
  then show ?thesis by simp
next
  case (Cons a rest)
  with assms have a: "a = 1" and r: "\<forall>n \<in> set rest. n = 1" and n: "a \<notin> set rest" by auto
  have "rest = []"
  proof (cases rest)
    case Nil
    then show ?thesis .
  next
    case (Cons b rest')
    with r have "b = 1" by simp
    with a n Cons show ?thesis by simp
  qed
  with Cons a show ?thesis by simp
qed

text \<open>
  The segment column is overwritten exactly when every (subject, session) group has one
  row; in every other case the step raises and no row is chosen.
\<close>

lemma concat_split_files_step_Inr_iff:
  "concat_split_files_step description = Inr description1 \<longleftrightarrow>
     (\<forall>n \<in> set (n_segments_per_session description). n = 1)
     \<and> description1 = map (\<lambda>r. r\<lparr>desc_segment := StrV ''001''\<rparr>) description"
proof -
  let ?us = "unique (n_segments_per_session description)"
  show ?thesis
  proof (cases "\<forall>n \<in> set (n_segments_per_session description). n = 1")
    case True
    then have "\<forall>n \<in> set ?us. n = 1" by (simp add: unique_set)
    with unique_distinct have "?us = [] \<or> ?us = [1]" by (rule distinct_all_one)
    then have "array_truth (map (\<lambda>n. n \<noteq> 1) ?us) = Inr False" by auto
    with True show ?thesis by (auto simp: concat_split_files_step_def)
  next
    case False
    then obtain n where n: "n \<in> set ?us" "n \<noteq> 1" by (auto simp: unique_set)
    have "array_truth (map (\<lambda>n. n \<noteq> 1) ?us) \<noteq> Inr False"
    proof (cases ?us)
      case Nil
      with n show ?thesis by simp
    next
      case (Cons a rest)
      show ?thesis
      proof (cases rest)
        case Nil
        with Cons n show ?thesis by simp
      next
        case c: (Cons b rest')
        with Cons show ?thesis by simp
      qed
    qed
    with False show ?thesis
      by (auto simp: concat_split_files_step_def split: sum.splits bool.splits)
  qed
qed

text \<open>
  C2: with one session of two segments and one session of one segment the group sizes
  are 2 and 1. The comparison with 1 is then an array of two truth values, and taking
  its truth value raises \<^verbatim>\<open>ValueError\<close>; \<^verbatim>\<open>NotImplementedError\<close> is raised only when
  all sessions are split into the same number of segments.
\<close>

theorem mixed_split_files_raise_ValueError:
  "convert_tuab_to_bids example_lib
     [example_recording ''x/01_tcp_ar/a_s003_t000.edf'' 0 3 0,
      example_recording ''x/01_tcp_ar/a_s003_t001.edf'' 0 3 1,
      example_recording ''x/01_tcp_ar/b_s001_t000.edf'' 1 1 0] ''out'' False True True
   = ([], Inl (ValueError
        ''The truth value of an array with more than one element is ambiguous''))
   \<and> convert_tuab_to_bids example_lib
     [example_recording ''x/01_tcp_ar/a_s003_t000.edf'' 0 3 0,
      example_recording ''x/01_tcp_ar/a_s003_t001.edf'' 0 3 1] ''out'' False True True
   = ([], Inl (NotImplementedError ''Concatenation of split files is not implemented yet.''))"
  by code_simp

lemma zfill_py_str_eq: "(zfill w (py_str a) = zfill w (py_str b)) = (a = b)"
  using zfill_py_str_inj by blast

text \<open>
  C1: with \<^verbatim>\<open>reset_session_indices\<close> enabled, the recordings are written in the order
  of the index, and for every subject the session numbers in the output paths of the
  recordings of the subject are 1, 2, ..., k in this order, k being the number of
  recordings of the subject that were written, whatever their sessions were before.
  When the conversion succeeds, every recording is written, and the session column of
  the rows of every subject in the summary table is 1, 2, ..., k, with k the number of
  recordings of the subject.
\<close>

theorem reindexed_sessions_contiguous:
  assumes "convert_tuab_to_bids lib concat_ds bids_save_dir healthy_only True concat_flag
             = (written, res)"
    and "datasets = (if healthy_only
                     then filter (\<lambda>ds. \<not> desc_pathological (description_of ds)) concat_ds
                     else concat_ds)"
  shows "map bids_subject written
           = map (\<lambda>ds. zfill 4 (py_str (desc_subject (description_of ds))))
               (take (length written) datasets)
       \<and> map bids_session (filter (\<lambda>p. bids_subject p = zfill 4 (py_str s)) written)
           = map (\<lambda>v. zfill 3 (py_str v))
               [1 .. int (length (filter (\<lambda>ds. desc_subject (description_of ds) = s)
                                    (take (length written) datasets)))]
       \<and> (\<forall>df_info. res = Inr df_info \<longrightarrow>
             length written = length datasets
             \<and> map info_participant_id df_info
                 = map (\<lambda>ds. zfill 4 (py_str (desc_subject (description_of ds)))) datasets
             \<and> map info_session (filter (\<lambda>r. info_participant_id r = zfill 4 (py_str s)) df_info)
                 = [1 .. int (length (filter (\<lambda>ds. desc_subject (description_of ds) = s)
                                        datasets))])"
proof (cases "healthy_only \<and> datasets = []")
  case True
  from convert_tuab_to_bids_selected [OF assms(2), of lib bids_save_dir True concat_flag]
    True assms(1)
  have "written = []" "res = Inl (KeyError ''False'')" by simp_all
  with True show ?thesis by simp
next
  case False
  from convert_tuab_to_bids_selected [OF assms(2), of lib bids_save_dir True concat_flag]
    False assms(1)
  have conv: "convert_tuab_to_bids lib datasets bids_save_dir False True concat_flag
      = (written, res)"
    by simp
  let ?n = "length written"
  let ?P = "\<lambda>r. desc_subject r = s"
  let ?Q = "\<lambda>ds. desc_subject (description_of ds) = s"
  from conversion_rows [OF conv] obtain rows :: "recording list" where
      l: "length rows = length datasets"
      and sub: "map desc_subject rows = map (\<lambda>ds. desc_subject (description_of ds)) datasets"
      and ses: "\<forall>s. map desc_session (filter (\<lambda>r. desc_subject r = s) rows)
            = arange_plus_one (length (filter (\<lambda>r. desc_subject r = s) rows))"
      and w: "written = map (bids_path_of bids_save_dir) (take ?n rows)"
      and i: "\<forall>df_info. res = Inr df_info \<longrightarrow> length written = length datasets
           \<and> map info_session df_info = map desc_session rows
           \<and> map info_participant_id df_info
               = map (\<lambda>r. zfill 4 (py_str (desc_subject r))) rows"
    by blast
  have zsub: "map (\<lambda>r. zfill 4 (py_str (desc_subject r))) (take k rows)
      = map (\<lambda>ds. zfill 4 (py_str (desc_subject (description_of ds)))) (take k datasets)" for k
  proof -
    have "map (\<lambda>r. zfill 4 (py_str (desc_subject r))) (take k rows)
        = map (\<lambda>v. zfill 4 (py_str v)) (take k (map desc_subject rows))"
      by (simp add: take_map comp_def)
    also have "\<dots> = map (\<lambda>ds. zfill 4 (py_str (desc_subject (description_of ds)))) (take k datasets)"
      by (simp only: sub) (simp add: take_map comp_def)
    finally show ?thesis .
  qed
  have ws: "map bids_subject written = map (\<lambda>r. zfill 4 (py_str (desc_subject r))) (take ?n rows)"
    by (subst w) (simp add: bids_path_of_def comp_def)
  have wz: "map bids_session written = map (\<lambda>r. zfill 3 (py_str (desc_session r))) (take ?n rows)"
    by (subst w) (simp add: bids_path_of_def comp_def)
  from ws have A: "map bids_subject written
      = map (\<lambda>ds. zfill 4 (py_str (desc_subject (description_of ds)))) (take ?n datasets)"
    by (simp only: zsub)
  define m where "m = length (filter ?P (take ?n rows))"
  have m_le: "m \<le> length (filter ?P rows)"
  proof -
    have "length (filter ?P (take ?n rows))
        = length (take (length (filter ?P (take ?n rows))) (filter ?P rows))"
      by (subst filter_take_prefix) (rule refl)
    then show ?thesis unfolding m_def by simp
  qed
  have m_eq: "m = length (filter ?Q (take ?n datasets))"
    unfolding m_def by (rule count_by_key) (rule sub)
  have "map desc_session (filter ?P (take ?n rows))
      = map desc_session (take m (filter ?P rows))"
    unfolding m_def by (subst filter_take_prefix) (rule refl)
  also have "\<dots> = take m (map desc_session (filter ?P rows))"
    by (simp only: take_map)
  also from ses have "\<dots> = take m (arange_plus_one (length (filter ?P rows)))"
    by simp
  also from m_le have "\<dots> = arange_plus_one m" by (rule take_arange_plus_one)
  finally have part: "map desc_session (filter ?P (take ?n rows)) = [1 .. int m]"
    by (simp only: arange_plus_one_upto)
  have "map bids_session (filter (\<lambda>p. bids_subject p = zfill 4 (py_str s)) written)
      = map (\<lambda>r. zfill 3 (py_str (desc_session r)))
          (filter (\<lambda>r. zfill 4 (py_str (desc_subject r)) = zfill 4 (py_str s)) (take ?n rows))"
    using ws wz by (rule filter_by_key)
  also have "\<dots> = map (\<lambda>v. zfill 3 (py_str v)) (map desc_session (filter ?P (take ?n rows)))"
    by (simp add: zfill_py_str_eq comp_def)
  finally have B: "map bids_session (filter (\<lambda>p. bids_subject p = zfill 4 (py_str s)) written)
      = map (\<lambda>v. zfill 3 (py_str v)) [1 .. int (length (filter ?Q (take ?n datasets)))]"
    by (simp only: part m_eq)
  have C: "length written = length datasets
      \<and> map info_participant_id df_info
          = map (\<lambda>ds. zfill 4 (py_str (desc_subject (description_of ds)))) datasets
      \<and> map info_session (filter (\<lambda>r. info_participant_id r = zfill 4 (py_str s)) df_info)
          = [1 .. int (length (filter ?Q datasets))]"
    if r: "res = Inr df_info" for df_info
  proof -
    from i r have n: "?n = length datasets"
      and isn: "map info_session df_info = map desc_session rows"
      and ip: "map info_participant_id df_info = map (\<lambda>r. zfill 4 (py_str (desc_subject r))) rows"
      by simp_all
    from zsub [of "length rows"] l have "map (\<lambda>r. zfill 4 (py_str (desc_subject r))) rows
        = map (\<lambda>ds. zfill 4 (py_str (desc_subject (description_of ds)))) datasets"
      by simp
    with ip have ip': "map info_participant_id df_info
        = map (\<lambda>ds. zfill 4 (py_str (desc_subject (description_of ds)))) datasets"
      by simp
    from count_by_key [of desc_subject rows "\<lambda>ds. desc_subject (description_of ds)" datasets
        s "length rows", OF sub] l
    have cnt: "length (filter ?P rows) = length (filter ?Q datasets)" by simp
    have "map info_session (filter (\<lambda>r. info_participant_id r = zfill 4 (py_str s)) df_info)
        = map desc_session
            (filter (\<lambda>r. zfill 4 (py_str (desc_subject r)) = zfill 4 (py_str s)) rows)"
      using ip isn by (rule filter_by_key)
    also have "\<dots> = map desc_session (filter ?P rows)"
      by (simp add: zfill_py_str_eq)
    also from ses have "\<dots> = arange_plus_one (length (filter ?P rows))" by simp
    finally have "map info_session (filter (\<lambda>r. info_participant_id r = zfill 4 (py_str s)) df_info)
        = [1 .. int (length (filter ?Q datasets))]"
      by (simp only: arange_plus_one_upto cnt)
    with n ip' show ?thesis by simp
  qed
  from A B C show ?thesis by blast
qed

theorem reindexed_sessions_contiguous_witness:
  "map (\<lambda>ds. desc_session (description_of ds))
     [example_recording ''x/01_tcp_ar/a_s003_t000.edf'' 0 3 0,
      example_recording ''x/01_tcp_ar/a_s007_t000.edf'' 0 7 0] = [3, 7]
   \<and> (\<exists>written df_info.
     convert_tuab_to_bids example_lib
       [example_recording ''x/01_tcp_ar/a_s003_t000.edf'' 0 3 0,
        example_recording ''x/01_tcp_ar/a_s007_t000.edf'' 0 7 0] ''out'' False True True
       = (written, Inr df_info)
     \<and> map bids_session (filter (\<lambda>p. bids_subject p = ''0000'') written) = [''001'', ''002'']
     \<and> map info_session (filter (\<lambda>r. info_participant_id r = ''0000'') df_info) = [1, 2])"
proof -
  let ?ds = "[example_recording ''x/01_tcp_ar/a_s003_t000.edf'' 0 3 0,
        example_recording ''x/01_tcp_ar/a_s007_t000.edf'' 0 7 0]"
  have a: "map (\<lambda>ds. desc_session (description_of ds)) ?ds = [3, 7]"
    by (simp add: example_recording_def)
  have "map_sum id (\<lambda>t. ()) (snd (convert_tuab_to_bids example_lib ?ds ''out'' False True True))
      = Inr ()"
    by code_simp
  then obtain written df_info where
      c: "convert_tuab_to_bids example_lib ?ds ''out'' False True True = (written, Inr df_info)"
    by (cases "convert_tuab_to_bids example_lib ?ds ''out'' False True True";
        cases "snd (convert_tuab_to_bids example_lib ?ds ''out'' False True True)") auto
  have s: "?ds = (if False then filter (\<lambda>ds. \<not> desc_pathological (description_of ds)) ?ds
                  else ?ds)" by simp
  have z4: "zfill 4 (py_str 0) = ''0000''" by code_simp
  have z3: "map (\<lambda>v. zfill 3 (py_str v)) [1, 2] = [''001'', ''002'']" by code_simp
  have u: "[1 .. int 2] = [1, 2]" by (simp add: upto.simps)
  have k: "length (filter (\<lambda>ds. desc_subject (description_of ds) = 0) ?ds) = 2"
    by (simp add: example_recording_def)
  note t = reindexed_sessions_contiguous [OF c s, of 0]
  from t have n: "length written = length ?ds" by blast
  then have n2: "take (length written) ?ds = ?ds" by simp
  from t have "map bids_session (filter (\<lambda>p. bids_subject p = zfill 4 (py_str 0)) written)
      = map (\<lambda>v. zfill 3 (py_str v))
          [1 .. int (length (filter (\<lambda>ds. desc_subject (description_of ds) = 0)
                               (take (length written) ?ds)))]"
    by blast
  then have w: "map bids_session (filter (\<lambda>p. bids_subject p = ''0000'') written)
      = [''001'', ''002'']"
    by (simp only: n2 k u z3 z4)
  from t have "map info_session (filter (\<lambda>r. info_participant_id r = zfill 4 (py_str 0)) df_info)
      = [1 .. int (length (filter (\<lambda>ds. desc_subject (description_of ds) = 0) ?ds))]"
    by blast
  then have i: "map info_session (filter (\<lambda>r. info_participant_id r = ''0000'') df_info) = [1, 2]"
    by (simp only: k u z4)
  have "\<exists>written df_info.
     convert_tuab_to_bids example_lib ?ds ''out'' False True True = (written, Inr df_info)
     \<and> map bids_session (filter (\<lambda>p. bids_subject p = ''0000'') written) = [''001'', ''002'']
     \<and> map info_session (filter (\<lambda>r. info_participant_id r = ''0000'') df_info) = [1, 2]"
    by (rule exI [of _ written], rule exI [of _ df_info]) (simp only: c w i simp_thms)
  with a show ?thesis by (rule conjI)
qed

section \<open>Properties of the output paths\<close>

lemma distinct_map_coarser:
  "distinct (map f xs) \<Longrightarrow> (\<And>x y. g x = g y \<Longrightarrow> f x = f y) \<Longrightarrow> distinct (map g xs)"
proof (induction xs)
  case Nil
  show ?case by simp
next
  case (Cons x xs)
  from Cons.prems(1) have n: "f x \<notin> f ` set xs" by simp
  have "g x \<notin> g ` set xs"
  proof
    assume "g x \<in> g ` set xs"
    then obtain y where y: "y \<in> set xs" "g x = g y" by auto
    from y(2) have "f x = f y" by (rule Cons.prems(2))
    with y(1) n show False by simp
  qed
  moreover from Cons.prems(1) have "distinct (map f xs)" by simp
  then have "distinct (map g xs)" using Cons.prems(2) by (rule Cons.IH)
  ultimately show ?case by simp
qed

lemma distinct_pairs_from_groups:
  "(\<And>s. distinct (map g (filter (\<lambda>r. h r = s) xs))) \<Longrightarrow> distinct (map (\<lambda>r. (h r, g r)) xs)"
proof (induction xs)
  case Nil
  then show ?case by simp
next
  case (Cons x xs)
  have "distinct (map g (filter (\<lambda>r. h r = s) xs))" for s
    using Cons.prems [of s] by (cases "h x = s") simp_all
  then have d: "distinct (map (\<lambda>r. (h r, g r)) xs)" by (rule Cons.IH)
  have "(h x, g x) \<notin> (\<lambda>r. (h r, g r)) ` set xs"
  proof
    assume "(h x, g x) \<in> (\<lambda>r. (h r, g r)) ` set xs"
    then obtain y where y: "y \<in> set xs" "h y = h x" "g y = g x" by auto
    from Cons.prems [of "h x"] have n: "g x \<notin> g ` set (filter (\<lambda>r. h r = h x) xs)" by simp
    from y have "y \<in> set (filter (\<lambda>r. h r = h x) xs)" by simp
    then have "g y \<in> g ` set (filter (\<lambda>r. h r = h x) xs)" by (rule imageI)
    with n y(3) show False by simp
  qed
  with d show ?case by simp
qed

lemma distinct_first_of_pairs:
  "distinct (map (\<lambda>r. (h r, g r)) xs) \<Longrightarrow> distinct (map h (filter (\<lambda>r. g r = c) xs))"
proof (induction xs)
  case Nil
  then show ?case by simp
next
  case (Cons x xs)
  then have d: "distinct (map h (filter (\<lambda>r. g r = c) xs))" by simp
  show ?case
  proof (cases "g x = c")
    case True
    have "h x \<notin> h ` set (filter (\<lambda>r. g r = c) xs)"
    proof
      assume "h x \<in> h ` set (filter (\<lambda>r. g r = c) xs)"
      then obtain y where y: "y \<in> set xs" "g y = c" "h y = h x" by auto
      from y(1) have "(h y, g y) \<in> (\<lambda>r. (h r, g r)) ` set xs" by (rule imageI)
      with y True have "(h x, g x) \<in> (\<lambda>r. (h r, g r)) ` set xs" by simp
      with Cons.prems show False by simp
    qed
    with d True show ?thesis by simp
  next
    case False
    with d show ?thesis by simp
  qed
qed

lemma distinct_subject_session_after_reset:
  "distinct (map (\<lambda>r. (desc_subject r, desc_session r)) (reset_session_indices_step description))"
proof (rule distinct_pairs_from_groups)
  fix s
  show "distinct (map desc_session (filter (\<lambda>r. desc_subject r = s)
      (reset_session_indices_step description)))"
    by (simp add: sessions_of_subject_after_reset transform_sessions_group arange_plus_one_upto)
qed

lemma bids_path_of_inj:
  assumes "bids_path_of bids_save_dir r = bids_path_of bids_save_dir r'"
  shows "(desc_subject r, desc_session r) = (desc_subject r', desc_session r')"
proof -
  from assms have a: "zfill 4 (py_str (desc_subject r)) = zfill 4 (py_str (desc_subject r'))"
    and b: "zfill 3 (py_str (desc_session r)) = zfill 3 (py_str (desc_session r'))"
    by (simp_all add: bids_path_of_def)
  from a have "desc_subject r = desc_subject r'" by (rule zfill_py_str_inj)
  moreover from b have "desc_session r = desc_session r'" by (rule zfill_py_str_inj)
  ultimately show ?thesis by simp
qed

lemma distinct_bids_paths_after_reset:
  "distinct (map (bids_path_of bids_save_dir) (reset_session_indices_step description))"
  using distinct_subject_session_after_reset
  by (rule distinct_map_coarser) (rule bids_path_of_inj)


lemma written_paths_distinct:
  assumes "convert_tuab_to_bids lib concat_ds bids_save_dir False True concat_flag
             = (written, res)"
  shows "distinct written"
proof -
  let ?description = "map description_of concat_ds"
  let ?prep = "if concat_flag then concat_split_files_step ?description else Inr ?description"
  show ?thesis
  proof (cases ?prep)
    case (Inl e)
    with assms show ?thesis by (simp add: convert_tuab_to_bids_unfold)
  next
    case (Inr description1)
    let ?d2 = "reset_session_indices_step description1"
    from assms Inr have c: "convert_recordings lib bids_save_dir (zip concat_ds ?d2)
        = (written, res)"
      by (simp add: convert_tuab_to_bids_unfold)
    from prepared_description [OF Inr, of True]
    have len: "length ?d2 = length concat_ds" by simp
    then have sn: "map snd (zip concat_ds ?d2) = ?d2" by simp
    have m: "map (\<lambda>z. bids_path_of bids_save_dir (snd z)) zs
        = map (bids_path_of bids_save_dir) (map snd zs)" for zs :: "(dataset \<times> recording) list"
      by (simp only: map_map comp_def)
    have d: "distinct (map (bids_path_of bids_save_dir) ?d2)"
      by (rule distinct_bids_paths_after_reset)
    show ?thesis
    proof (cases res)
      case (Inl e)
      with c have "written = map (\<lambda>z. bids_path_of bids_save_dir (snd z))
          (take (length written) (zip concat_ds ?d2))"
        using convert_recordings_failure by blast
      then have "written = take (length written) (map (bids_path_of bids_save_dir) ?d2)"
        by (simp only: m take_map [symmetric] sn)
      with d show ?thesis by (metis distinct_take)
    next
      case (Inr df_info)
      with c have "written = map (\<lambda>z. bids_path_of bids_save_dir (snd z)) (zip concat_ds ?d2)"
        using convert_recordings_success by blast
      then have "written = map (bids_path_of bids_save_dir) ?d2"
        by (simp only: m sn)
      with d show ?thesis by simp
    qed
  qed
qed

lemma zip_map_pair: "zip (map f xs) (map g xs) = map (\<lambda>r. (f r, g r)) xs"
  by (induction xs) simp_all

lemma summary_first_sessions_distinct:
  assumes "convert_tuab_to_bids lib concat_ds bids_save_dir False True concat_flag
             = (written, Inr df_info)"
  shows "distinct (map info_participant_id (filter (\<lambda>r. info_session r = 1) df_info))"
    and "\<forall>r \<in> set df_info. participant_label r = ''sub-'' @ info_participant_id r"
proof -
  let ?description = "map description_of concat_ds"
  let ?prep = "if concat_flag then concat_split_files_step ?description else Inr ?description"
  from assms obtain description1 where p: "?prep = Inr description1"
    by (cases ?prep) (simp_all add: convert_tuab_to_bids_unfold)
  let ?d2 = "reset_session_indices_step description1"
  let ?zf = "\<lambda>r. zfill 4 (py_str (desc_subject r))"
  from assms p have c: "convert_recordings lib bids_save_dir (zip concat_ds ?d2)
      = (written, Inr df_info)"
    by (simp add: convert_tuab_to_bids_unfold)
  from prepared_description [OF p, of True]
  have len: "length ?d2 = length concat_ds" by simp
  then have sn: "map snd (zip concat_ds ?d2) = ?d2" by simp
  from convert_recordings_success [OF c]
  have s: "map info_session df_info = map (\<lambda>z. desc_session (snd z)) (zip concat_ds ?d2)"
    and i: "map info_participant_id df_info = map (\<lambda>z. ?zf (snd z)) (zip concat_ds ?d2)"
    by simp_all
  have "map (\<lambda>z. desc_session (snd z)) (zip concat_ds ?d2)
      = map desc_session (map snd (zip concat_ds ?d2))"
    by (simp only: map_map comp_def)
  with s have s': "map info_session df_info = map desc_session ?d2" by (simp only: sn)
  have "map (\<lambda>z. ?zf (snd z)) (zip concat_ds ?d2) = map ?zf (map snd (zip concat_ds ?d2))"
    by (simp only: map_map comp_def)
  with i have i': "map info_participant_id df_info = map ?zf ?d2" by (simp only: sn)
  have "map (\<lambda>r. (info_participant_id r, info_session r)) df_info
      = zip (map info_participant_id df_info) (map info_session df_info)"
    by (rule zip_map_pair [symmetric])
  also have "\<dots> = map (\<lambda>r. (?zf r, desc_session r)) ?d2"
    by (simp only: s' i' zip_map_pair)
  finally have e: "map (\<lambda>r. (info_participant_id r, info_session r)) df_info
      = map (\<lambda>r. (?zf r, desc_session r)) ?d2" .
  have "distinct (map (\<lambda>r. (?zf r, desc_session r)) ?d2)"
    using distinct_subject_session_after_reset
  proof (rule distinct_map_coarser)
    fix x y :: recording
    assume "(?zf x, desc_session x) = (?zf y, desc_session y)"
    then have z: "?zf x = ?zf y" and q: "desc_session x = desc_session y" by simp_all
    from z have "desc_subject x = desc_subject y" by (rule zfill_py_str_inj)
    with q show "(desc_subject x, desc_session x) = (desc_subject y, desc_session y)" by simp
  qed
  with e have "distinct (map (\<lambda>r. (info_participant_id r, info_session r)) df_info)"
    by simp
  then show "distinct (map info_participant_id (filter (\<lambda>r. info_session r = 1) df_info))"
    by (rule distinct_first_of_pairs)
  show "\<forall>r \<in> set df_info. participant_label r = ''sub-'' @ info_participant_id r"
  proof
    fix r assume "r \<in> set df_info"
    then have "info_participant_id r \<in> set (map info_participant_id df_info)" by simp
    then have "info_participant_id r \<in> set (map ?zf ?d2)" by (simp only: i')
    then have "info_participant_id r \<in> ?zf ` set ?d2" by (simp only: set_map)
    then obtain x :: recording where "info_participant_id r = zfill 4 (py_str (desc_subject x))"
      by (rule imageE)
    then show "participant_label r = ''sub-'' @ info_participant_id r"
      by (simp add: participant_label_def read_int_zfill)
  qed
qed

lemma filter_eq_distinct:
  "distinct ps \<Longrightarrow> filter (\<lambda>p. p = a) ps = (if a \<in> set ps then [a] else [])"
  by (induction ps) auto

lemma merge_distinct:
  assumes "distinct participants_tsv"
  shows "merge_on_participant_id left participants_tsv
           = filter (\<lambda>r. participant_label r \<in> set participants_tsv) left"
  unfolding merge_on_participant_id_def
  by (induction left) (simp_all add: filter_eq_distinct [OF assms])

lemma pipeline_subjects_distinct:
  assumes "convert_tuab_to_bids lib concat_ds bids_save_dir False True concat_flag
             = (written, Inr df_info)"
    and "distinct participants_tsv"
  shows "distinct (pipeline_subjects participants_tsv df_info)"
proof -
  let ?first = "filter (\<lambda>r. info_session r = 1) df_info"
  have e: "map participant_label ?first = map (\<lambda>r. ''sub-'' @ info_participant_id r) ?first"
    using summary_first_sessions_distinct(2) [OF assms(1)] by (intro map_cong) simp_all
  have "distinct (map (\<lambda>r. ''sub-'' @ info_participant_id r) ?first)"
    using summary_first_sessions_distinct(1) [OF assms(1)]
    by (rule distinct_map_coarser) simp
  then have "distinct (map participant_label ?first)" by (simp only: e)
  then have "distinct (map participant_label
      (filter (\<lambda>r. participant_label r \<in> set participants_tsv) ?first))"
    by (rule distinct_map_filter)
  then have "distinct (map participant_label (filter (\<lambda>r. \<not> info_pathological r)
      (filter (\<lambda>r. participant_label r \<in> set participants_tsv) ?first)))"
    by (rule distinct_map_filter)
  then have "distinct (map participant_label
      (filter (\<lambda>r. participant_label r \<notin> set [''sub-0388'', ''sub-0766'', ''sub-2289''])
        (filter (\<lambda>r. \<not> info_pathological r)
          (filter (\<lambda>r. participant_label r \<in> set participants_tsv) ?first))))"
    by (rule distinct_map_filter)
  then show ?thesis
    by (simp only: pipeline_subjects_def Let_def merge_distinct [OF assms(2)])
qed

lemma cat_codes_inj:
  assumes "i < length xs" "j < length xs"
  shows "cat_codes xs ! i = cat_codes xs ! j \<longleftrightarrow> xs ! i = xs ! j"
proof -
  let ?cats = "sort (remdups xs)"
  let ?idx = "\<lambda>x. length (takeWhile (\<lambda>c. c \<noteq> x) ?cats)"
  have at: "?cats ! ?idx x = x" if "x \<in> set xs" for x
  proof -
    from that have "x \<in> set ?cats" by simp
    then have "takeWhile (\<lambda>c. c \<noteq> x) ?cats \<noteq> ?cats"
      by (auto simp: takeWhile_eq_all_conv)
    then have "?idx x \<noteq> length ?cats" by (metis takeWhile_eq_take take_all_iff le_refl)
    with length_takeWhile_le [of "\<lambda>c. c \<noteq> x" ?cats] have "?idx x < length ?cats" by simp
    then have "\<not> (?cats ! ?idx x \<noteq> x)" by (rule nth_length_takeWhile)
    then show ?thesis by simp
  qed
  from assms have c: "cat_codes xs ! i = int (?idx (xs ! i))" "cat_codes xs ! j = int (?idx (xs ! j))"
    by (simp_all add: cat_codes_def Let_def)
  show ?thesis
  proof
    assume "cat_codes xs ! i = cat_codes xs ! j"
    with c have "?idx (xs ! i) = ?idx (xs ! j)" by simp
    then have "?cats ! ?idx (xs ! i) = ?cats ! ?idx (xs ! j)" by simp
    with assms show "xs ! i = xs ! j" by (simp add: at)
  next
    assume "xs ! i = xs ! j"
    with c show "cat_codes xs ! i = cat_codes xs ! j" by simp
  qed
qed


lemma task_output_path_inj:
  "task_output_path (make_tuab_config root sub output_dir criterion)
     = task_output_path (make_tuab_config root' sub' output_dir' criterion')
   \<longleftrightarrow> output_dir = output_dir' \<and> sub = sub'"
  by (simp add: task_output_path_def make_tuab_config_def)

text \<open>
  C9: no two units of work share an output path. The recordings converted with session
  reindexing are written to pairwise different BIDS paths, each a function of the
  recording's own participant number, session and run. The subjects for which pipeline
  tasks are built from the saved summary table are pairwise different, so within one
  pipeline variant no two tasks have the same output path, and tasks of different
  variant directories or subjects never have. Different raw subject tokens get
  different participant codes.
\<close>

theorem output_paths_never_collide:
  assumes "convert_tuab_to_bids lib concat_ds bids_save_dir False True concat_flag
             = (written, res)"
  shows "distinct written
     \<and> (\<forall>df_info. res = Inr df_info \<and> distinct participants_tsv \<longrightarrow>
           distinct (map (\<lambda>sub. task_output_path (make_tuab_config root sub output_dir criterion))
                      (pipeline_subjects participants_tsv df_info)))
     \<and> (\<forall>sub sub' output_dir' criterion'. (output_dir, sub) \<noteq> (output_dir', sub') \<longrightarrow>
           task_output_path (make_tuab_config root sub output_dir criterion)
             \<noteq> task_output_path (make_tuab_config root sub' output_dir' criterion'))
     \<and> (\<forall>i j. i < length tokens \<and> j < length tokens \<longrightarrow>
           (cat_codes tokens ! i = cat_codes tokens ! j) = (tokens ! i = tokens ! j))"
proof (intro conjI allI impI)
  from assms show "distinct written" by (rule written_paths_distinct)
next
  fix df_info assume a: "res = Inr df_info \<and> distinct participants_tsv"
  with assms have "distinct (pipeline_subjects participants_tsv df_info)"
    using pipeline_subjects_distinct by blast
  then have "distinct (map (\<lambda>sub. sub) (pipeline_subjects participants_tsv df_info))" by simp
  then show "distinct (map (\<lambda>sub. task_output_path (make_tuab_config root sub output_dir criterion))
      (pipeline_subjects participants_tsv df_info))"
    by (rule distinct_map_coarser) (simp add: task_output_path_inj)
next
  fix sub sub' output_dir' :: string and criterion' :: "string option"
  assume "(output_dir, sub) \<noteq> (output_dir', sub')"
  then show "task_output_path (make_tuab_config root sub output_dir criterion)
      \<noteq> task_output_path (make_tuab_config root sub' output_dir' criterion')"
    by (simp add: task_output_path_inj)
next
  fix i j assume "i < length tokens \<and> j < length tokens"
  then show "(cat_codes tokens ! i = cat_codes tokens ! j) = (tokens ! i = tokens ! j)"
    by (simp add: cat_codes_inj)
qed

theorem output_paths_never_collide_witness:
  "\<exists>written df_info.
     convert_tuab_to_bids example_lib
       [example_recording ''x/01_tcp_ar/a_s003_t000.edf'' 0 3 0,
        example_recording ''x/01_tcp_ar/a_s007_t000.edf'' 0 7 0,
        example_recording ''x/01_tcp_le/b_s001_t000.edf'' 1 1 0] ''out'' False True True
       = (written, Inr df_info)
     \<and> distinct written
     \<and> pipeline_subjects [''sub-0000'', ''sub-0001''] df_info = [''sub-0000'', ''sub-0001'']
     \<and> distinct (map (\<lambda>sub. task_output_path
                          (make_tuab_config ''bids'' sub ''derivatives/preproc_minimal'' None))
                  (pipeline_subjects [''sub-0000'', ''sub-0001''] df_info))"
proof -
  let ?ds = "[example_recording ''x/01_tcp_ar/a_s003_t000.edf'' 0 3 0,
        example_recording ''x/01_tcp_ar/a_s007_t000.edf'' 0 7 0,
        example_recording ''x/01_tcp_le/b_s001_t000.edf'' 1 1 0]"
  let ?tsv = "[''sub-0000'', ''sub-0001'']"
  have "map_sum id (pipeline_subjects ?tsv)
          (snd (convert_tuab_to_bids example_lib ?ds ''out'' False True True))
      = Inr [''sub-0000'', ''sub-0001'']"
    by code_simp
  then obtain written df_info where
      c: "convert_tuab_to_bids example_lib ?ds ''out'' False True True = (written, Inr df_info)"
      and p: "pipeline_subjects ?tsv df_info = [''sub-0000'', ''sub-0001'']"
    by (cases "convert_tuab_to_bids example_lib ?ds ''out'' False True True";
        cases "snd (convert_tuab_to_bids example_lib ?ds ''out'' False True True)") auto
  have t: "distinct ?tsv" by simp
  from output_paths_never_collide [OF c, of ?tsv "''bids''" "''derivatives/preproc_minimal''" None] t
  have w: "distinct written"
    and d: "distinct (map (\<lambda>sub. task_output_path
                          (make_tuab_config ''bids'' sub ''derivatives/preproc_minimal'' None))
                  (pipeline_subjects ?tsv df_info))"
    by blast+
  show ?thesis
    by (rule exI [of _ written], rule exI [of _ df_info], intro conjI)
       (rule c, rule w, rule p, rule d)
qed

end
